theory Spec2Isabelle
  imports Complex_Main "HOL-Library.Word" "HOL-Library.Monad_Syntax"
begin

section \<open>Machine arithmetic of the C source\<close>

text \<open>
  The codec of \<^verbatim>\<open>nradix-driver/src/encoding.c\<close> computes with \<^verbatim>\<open>int\<close> (32 bits,
  two's complement), \<^verbatim>\<open>int8_t\<close> trits, \<^verbatim>\<open>uint8_t\<close> packed bytes, \<^verbatim>\<open>size_t\<close>
  (64 bits, as on the LP64 targets of the driver) and \<^verbatim>\<open>float\<close> (IEEE-754 binary32).

  An \<^verbatim>\<open>int\<close> is modelled as a HOL \<open>int\<close>. In the scalar codec every addition and
  multiplication that can leave the 32-bit range (on \<^verbatim>\<open>max_val\<close>, \<^verbatim>\<open>power\<close>, \<^verbatim>\<open>value\<close> and
  \<^verbatim>\<open>k\<close>) is followed by \<open>int32\<close>. (Signed overflow is undefined in ISO C; for these
  variables the model takes the two's complement result, so that the values computed
  with more than 19 trits can be stated.) Division and remainder truncate towards zero,
  as C's \<^verbatim>\<open>/\<close> and \<^verbatim>\<open>%\<close> do.
\<close>

definition int32 :: "int \<Rightarrow> int" where
  "int32 x = (x + 2 ^ 31) mod 2 ^ 32 - 2 ^ 31"

definition cdiv :: "int \<Rightarrow> int \<Rightarrow> int" where
  "cdiv a b = sgn a * sgn b * (\<bar>a\<bar> div \<bar>b\<bar>)"

definition cmod :: "int \<Rightarrow> int \<Rightarrow> int" where
  "cmod a b = a - b * cdiv a b"

text \<open>
  The element count \<^verbatim>\<open>rows * cols\<close> in the loop conditions of the two matrix functions is
  an \<^verbatim>\<open>int\<close> product. Signed overflow is undefined in ISO C, and a compiler may assume
  that it does not happen; where this product overflows, the behaviour of the call is
  undefined (\<open>None\<close>) in the model, and no return value is given to it.
\<close>

definition int_mul :: "int \<Rightarrow> int \<Rightarrow> int option" where
  "int_mul a b = (if - (2 ^ 31) \<le> a * b \<and> a * b < 2 ^ 31 then Some (a * b) else None)"

text \<open>Conversion of an \<^verbatim>\<open>int\<close> to \<^verbatim>\<open>size_t\<close>, and \<^verbatim>\<open>size_t\<close> arithmetic, are modulo \<open>2 ^ 64\<close>.\<close>

definition size_t :: "int \<Rightarrow> nat" where
  "size_t x = nat (x mod 2 ^ 64)"

type_synonym trit = int
type_synonym u8 = "8 word"

section \<open>Byte packer\<close>

text \<open>
  \<^verbatim>\<open>pack_trits\<close>: the \<^verbatim>\<open>int8_t\<close> arguments are promoted to \<^verbatim>\<open>int\<close>, the sum is formed
  in \<^verbatim>\<open>int\<close> and cast to \<^verbatim>\<open>uint8_t\<close>.
\<close>

definition pack_trits :: "trit \<Rightarrow> trit \<Rightarrow> trit \<Rightarrow> trit \<Rightarrow> trit \<Rightarrow> u8" where
  "pack_trits t0 t1 t2 t3 t4 =
     word_of_int ((t0 + 1) + (t1 + 1) * 3 + (t2 + 1) * 9 + (t3 + 1) * 27 + (t4 + 1) * 81)"

text \<open>
  \<^verbatim>\<open>unpack_trits\<close> writes five elements of the caller's array; a null pointer (\<open>None\<close>)
  makes it return at once. The outer \<open>option\<close> of the result is \<open>None\<close> when the array
  is shorter than five elements (a write out of bounds).
\<close>

definition wr :: "'a list \<Rightarrow> nat \<Rightarrow> 'a \<Rightarrow> 'a list option" where
  "wr xs i v = (if i < length xs then Some (xs[i := v]) else None)"

definition rd :: "'a list \<Rightarrow> nat \<Rightarrow> 'a option" where
  "rd xs i = (if i < length xs then Some (xs ! i) else None)"

definition unpack_trits :: "u8 \<Rightarrow> trit list option \<Rightarrow> trit list option option" where
  "unpack_trits packed trits =
     (case trits of
        None \<Rightarrow> Some None
      | Some ts \<Rightarrow>
          do {
            ts \<leftarrow> wr ts 0 (uint packed mod 3 - 1);
            let packed = packed div 3;
            ts \<leftarrow> wr ts 1 (uint packed mod 3 - 1);
            let packed = packed div 3;
            ts \<leftarrow> wr ts 2 (uint packed mod 3 - 1);
            let packed = packed div 3;
            ts \<leftarrow> wr ts 3 (uint packed mod 3 - 1);
            let packed = packed div 3;
            ts \<leftarrow> wr ts 4 (uint packed mod 3 - 1);
            Some (Some ts)
          })"

section \<open>Buffer size\<close>

definition calculate_packed_size :: "int \<Rightarrow> int \<Rightarrow> int \<Rightarrow> nat" where
  "calculate_packed_size rows cols trits_per_val =
     (let total_trits = (size_t rows * size_t cols mod 2 ^ 64) * size_t trits_per_val mod 2 ^ 64
      in ((total_trits + 4) mod 2 ^ 64) div 5)"

section \<open>IEEE-754 binary32 arithmetic\<close>

text \<open>
  A \<^verbatim>\<open>float\<close> is a finite value, an infinity or a NaN. A finite value is kept as the
  rational number it denotes (the representable ones are \<open>m * 2 ^ e\<close> with
  \<open>\<bar>m\<bar> < 2 ^ 24\<close> and \<open>- 149 \<le> e \<le> 104\<close>); the two zeros are identified, since the
  codec never looks at the sign of a zero. Every operation rounds its exact result to
  binary32, to nearest with ties to even (\<^verbatim>\<open>FLT_EVAL_METHOD\<close> 0, default rounding mode).
\<close>

datatype f32 = Fin rat | PInf | NInf | NaN

definition rne :: "rat \<Rightarrow> int" where
  "rne x = (let f = \<lfloor>x\<rfloor>; d = x - of_int f
            in if d < 1 / 2 then f else if 1 / 2 < d then f + 1
               else if even f then f else f + 1)"

text \<open>
  The spacing of binary32 around a magnitude \<open>a\<close>: \<open>2 ^ - 149\<close> below \<open>2 ^ - 125\<close>
  (subnormals and the first binade), doubling with each of the 254 binades; \<open>None\<close>
  from \<open>2 ^ 128\<close> on.
\<close>

fun f32_quantum :: "nat \<Rightarrow> rat \<Rightarrow> rat \<Rightarrow> rat option" where
  "f32_quantum 0 q a = None"
| "f32_quantum (Suc n) q a = (if a < q * 2 ^ 24 then Some q else f32_quantum n (2 * q) a)"

definition f32_round :: "rat \<Rightarrow> f32" where
  "f32_round x =
     (case f32_quantum 254 (1 / 2 ^ 149) \<bar>x\<bar> of
        None \<Rightarrow> (if 0 < x then PInf else NInf)
      | Some q \<Rightarrow>
          (let y = of_int (rne (x / q)) * q
           in if 2 ^ 128 \<le> y then PInf else if y \<le> - (2 ^ 128) then NInf else Fin y))"

text \<open>Conversion \<^verbatim>\<open>(float)i\<close> of an \<^verbatim>\<open>int\<close>.\<close>

definition f32_of_int :: "int \<Rightarrow> f32" where
  "f32_of_int i = f32_round (of_int i)"

text \<open>The comparison \<^verbatim>\<open><\<close>: false as soon as an operand is a NaN.\<close>

fun f32_lt :: "f32 \<Rightarrow> f32 \<Rightarrow> bool" where
  "f32_lt NaN y = False"
| "f32_lt x NaN = False"
| "f32_lt (Fin a) (Fin b) = (a < b)"
| "f32_lt x NInf = False"
| "f32_lt PInf y = False"
| "f32_lt NInf y = True"
| "f32_lt (Fin a) PInf = True"

fun is_neg :: "f32 \<Rightarrow> bool" where
  "is_neg (Fin a) = (a < 0)"
| "is_neg NInf = True"
| "is_neg v = False"

definition signed_inf :: "bool \<Rightarrow> f32" where
  "signed_inf neg = (if neg then NInf else PInf)"

definition f32_mul :: "f32 \<Rightarrow> f32 \<Rightarrow> f32" where
  "f32_mul x y =
     (if x = NaN \<or> y = NaN then NaN
      else case (x, y) of
             (Fin a, Fin b) \<Rightarrow> f32_round (a * b)
           | _ \<Rightarrow> if x = Fin 0 \<or> y = Fin 0 then NaN else signed_inf (is_neg x \<noteq> is_neg y))"

definition f32_div :: "f32 \<Rightarrow> f32 \<Rightarrow> f32" where
  "f32_div x y =
     (if x = NaN \<or> y = NaN then NaN
      else case (x, y) of
             (Fin a, Fin b) \<Rightarrow>
               if b = 0 then (if a = 0 then NaN else signed_inf (a < 0))
               else f32_round (a / b)
           | (Fin a, _) \<Rightarrow> Fin 0
           | (_, Fin b) \<Rightarrow> signed_inf (is_neg x \<noteq> (b < 0))
           | _ \<Rightarrow> NaN)"

text \<open>\<^verbatim>\<open>roundf\<close>: to the nearest integer, halfway cases away from zero.\<close>

definition round_half_away :: "rat \<Rightarrow> int" where
  "round_half_away x = (if 0 \<le> x then \<lfloor>x + 1 / 2\<rfloor> else - \<lfloor>- x + 1 / 2\<rfloor>)"

fun roundf :: "f32 \<Rightarrow> f32" where
  "roundf (Fin x) = Fin (of_int (round_half_away x))"
| "roundf v = v"

text \<open>
  The cast \<^verbatim>\<open>(int)x\<close> truncates towards zero. It is undefined (\<open>None\<close>) for a NaN, an
  infinity and a value whose integral part is not an \<^verbatim>\<open>int\<close>.
\<close>

fun f32_to_int :: "f32 \<Rightarrow> int option" where
  "f32_to_int (Fin x) =
     (let t = (if 0 \<le> x then \<lfloor>x\<rfloor> else - \<lfloor>- x\<rfloor>)
      in if - (2 ^ 31) \<le> t \<and> t < 2 ^ 31 then Some t else None)"
| "f32_to_int v = None"

section \<open>Scalar codec\<close>

definition clamp :: "f32 \<Rightarrow> f32" where
  "clamp v = (if f32_lt v (Fin (- 1)) then Fin (- 1) else if f32_lt (Fin 1) v then Fin 1 else v)"

text \<open>
  In the loops below the first argument counts the iterations that are left and the
  second is the loop variable of the source. A result \<open>None\<close> is undefined behaviour of
  the C program: an array access out of bounds, an undefined cast or an overflow of the
  element count.
\<close>

text \<open>\<^verbatim>\<open>for (int i = 0; i < num_trits; i++) max_val *= 3;\<close>\<close>

fun mul3_loop :: "nat \<Rightarrow> int \<Rightarrow> int" where
  "mul3_loop 0 m = m"
| "mul3_loop (Suc n) m = mul3_loop n (int32 (m * 3))"

text \<open>The variable \<^verbatim>\<open>max_val\<close> of \<^verbatim>\<open>float_to_balanced_ternary\<close> after line 57.\<close>

definition max_val :: "int \<Rightarrow> int" where
  "max_val num_trits = cdiv (int32 (mul3_loop (nat num_trits) 1 - 1)) 2"

text \<open>One iteration of the conversion loop: the trit stored and the next \<^verbatim>\<open>k\<close>.\<close>

definition trit_step :: "int \<Rightarrow> trit \<times> int" where
  "trit_step k =
     (let rem = cmod k 3;
          rem = (if k < 0 \<and> rem \<noteq> 0 then rem + 3 else rem)
      in if rem = 0 then (0, cdiv k 3)
         else if rem = 1 then (1, cdiv k 3)
         else (- 1, cdiv (int32 (k + 1)) 3))"

fun trits_loop :: "nat \<Rightarrow> nat \<Rightarrow> int \<Rightarrow> trit list \<Rightarrow> trit list option" where
  "trits_loop 0 i k ts = Some ts"
| "trits_loop (Suc n) i k ts =
     (case trit_step k of
        (t, k') \<Rightarrow> do { ts' \<leftarrow> wr ts i t; trits_loop n (Suc i) k' ts' })"

text \<open>
  The result of \<^verbatim>\<open>float_to_balanced_ternary\<close> is its return value together with the
  caller's array afterwards.
\<close>

definition float_to_balanced_ternary ::
  "f32 \<Rightarrow> trit list option \<Rightarrow> int \<Rightarrow> (int \<times> trit list option) option" where
  "float_to_balanced_ternary value trits num_trits =
     (case trits of
        None \<Rightarrow> Some (- 1, None)
      | Some ts \<Rightarrow>
          if num_trits \<le> 0 then Some (- 1, Some ts)
          else do {
            let value = clamp value;
            k \<leftarrow> f32_to_int (roundf (f32_mul value (f32_of_int (max_val num_trits))));
            ts' \<leftarrow> trits_loop (nat num_trits) 0 k ts;
            Some (0, Some ts')
          })"

text \<open>The loop of \<^verbatim>\<open>balanced_ternary_to_float\<close>, returning \<^verbatim>\<open>value\<close> and \<^verbatim>\<open>power\<close>
  (here \<open>val\<close> and \<open>pwr\<close>).\<close>

fun value_loop :: "nat \<Rightarrow> nat \<Rightarrow> trit list \<Rightarrow> int \<Rightarrow> int \<Rightarrow> (int \<times> int) option" where
  "value_loop 0 i ts val pwr = Some (val, pwr)"
| "value_loop (Suc n) i ts val pwr =
     do {
       t \<leftarrow> rd ts i;
       value_loop n (Suc i) ts (int32 (val + int32 (t * pwr))) (int32 (pwr * 3))
     }"

definition balanced_ternary_to_float :: "trit list option \<Rightarrow> int \<Rightarrow> f32 option" where
  "balanced_ternary_to_float trits num_trits =
     (case trits of
        None \<Rightarrow> Some (Fin 0)
      | Some ts \<Rightarrow>
          if num_trits \<le> 0 then Some (Fin 0)
          else do {
            (val, pwr) \<leftarrow> value_loop (nat num_trits) 0 ts 0 1;
            let max_val = cdiv (int32 (pwr - 1)) 2;
            Some (f32_div (f32_of_int val) (f32_of_int max_val))
          })"

section \<open>Matrix codec\<close>

text \<open>\<^verbatim>\<open>memset(packed, 0, packed_size)\<close>: undefined when the buffer is shorter.\<close>

definition memset_zero :: "u8 list \<Rightarrow> nat \<Rightarrow> u8 list option" where
  "memset_zero buf n = (if n \<le> length buf then Some (replicate n 0 @ drop n buf) else None)"

text \<open>The call \<^verbatim>\<open>pack_trits(trit_buffer[0], ..., trit_buffer[4])\<close>.\<close>

definition pack_buffer :: "trit list \<Rightarrow> u8 option" where
  "pack_buffer tb =
     do {
       t0 \<leftarrow> rd tb 0; t1 \<leftarrow> rd tb 1; t2 \<leftarrow> rd tb 2; t3 \<leftarrow> rd tb 3; t4 \<leftarrow> rd tb 4;
       Some (pack_trits t0 t1 t2 t3 t4)
     }"

text \<open>
  The local variables of \<^verbatim>\<open>float_matrix_to_ternary\<close> that its loops change, together
  with the output buffer. (\<^verbatim>\<open>trit_index\<close> is declared and never used.)
\<close>

record enc_state =
  trits :: "trit list"
  trit_buffer :: "trit list"
  buffer_pos :: nat
  packed_index :: nat
  packed :: "u8 list"

text \<open>The loop over \<^verbatim>\<open>j\<close>: one trit into the accumulator, and a byte out when it is full.\<close>

fun enc_inner :: "nat \<Rightarrow> nat \<Rightarrow> enc_state \<Rightarrow> enc_state option" where
  "enc_inner 0 j s = Some s"
| "enc_inner (Suc n) j s =
     do {
       t \<leftarrow> rd (trits s) j;
       tb \<leftarrow> wr (trit_buffer s) (buffer_pos s) t;
       let s = s\<lparr>trit_buffer := tb, buffer_pos := buffer_pos s + 1\<rparr>;
       s \<leftarrow> (if buffer_pos s = 5 then
              do {
                b \<leftarrow> pack_buffer (trit_buffer s);
                pk \<leftarrow> wr (packed s) (packed_index s) b;
                Some (s\<lparr>packed := pk, packed_index := packed_index s + 1, buffer_pos := 0\<rparr>)
              }
            else Some s);
       enc_inner n (Suc j) s
     }"

text \<open>The loop over \<^verbatim>\<open>i\<close>; the return value of the scalar encoder is not looked at.\<close>

fun enc_outer :: "nat \<Rightarrow> nat \<Rightarrow> f32 list \<Rightarrow> int \<Rightarrow> enc_state \<Rightarrow> enc_state option" where
  "enc_outer 0 i m trits_per_val s = Some s"
| "enc_outer (Suc n) i m trits_per_val s =
     do {
       v \<leftarrow> rd m i;
       (rc, tso) \<leftarrow> float_to_balanced_ternary v (Some (trits s)) trits_per_val;
       ts \<leftarrow> tso;
       s \<leftarrow> enc_inner (nat trits_per_val) 0 (s\<lparr>trits := ts\<rparr>);
       enc_outer n (Suc i) m trits_per_val s
     }"

text \<open>\<^verbatim>\<open>while (buffer_pos < 5) trit_buffer[buffer_pos++] = 0;\<close>\<close>

function pad_buffer :: "enc_state \<Rightarrow> enc_state option" where
  "pad_buffer s =
     (if buffer_pos s < 5 then
        (case wr (trit_buffer s) (buffer_pos s) 0 of
           None \<Rightarrow> None
         | Some tb \<Rightarrow> pad_buffer (s\<lparr>trit_buffer := tb, buffer_pos := buffer_pos s + 1\<rparr>))
      else Some s)"
  by pat_completeness auto
termination
  by (relation "measure (\<lambda>s. 5 - buffer_pos s)") auto

declare pad_buffer.simps [simp del]

text \<open>
  The result of \<^verbatim>\<open>float_matrix_to_ternary\<close> is its return value together with the
  output buffer afterwards. The element count \<^verbatim>\<open>rows * cols\<close> is first formed when the
  loop is entered.
\<close>

definition float_matrix_to_ternary ::
  "f32 list option \<Rightarrow> int \<Rightarrow> int \<Rightarrow> int \<Rightarrow> u8 list option \<Rightarrow> nat \<Rightarrow>
   (int \<times> u8 list option) option" where
  "float_matrix_to_ternary matrix rows cols trits_per_val packed_buf packed_size =
     (case (matrix, packed_buf) of
        (Some m, Some pk) \<Rightarrow>
          if rows \<le> 0 \<or> cols \<le> 0 \<or> trits_per_val \<le> 0 then Some (- 1, packed_buf)
          else
            let required_size = calculate_packed_size rows cols trits_per_val
            in if packed_size < required_size then Some (- 1, packed_buf)
               else do {
                 pk \<leftarrow> memset_zero pk packed_size;
                 if trits_per_val > 64 then Some (- 1, Some pk)
                 else do {
                   n \<leftarrow> int_mul rows cols;
                   s \<leftarrow> enc_outer (nat n) 0 m trits_per_val
                          \<lparr>trits = replicate 64 0, trit_buffer = [0, 0, 0, 0, 0],
                           buffer_pos = 0, packed_index = 0, packed = pk\<rparr>;
                   s \<leftarrow> (if buffer_pos s > 0 then
                          do {
                            s \<leftarrow> pad_buffer s;
                            b \<leftarrow> pack_buffer (trit_buffer s);
                            pk \<leftarrow> wr (packed s) (packed_index s) b;
                            Some (s\<lparr>packed := pk\<rparr>)
                          }
                        else Some s);
                   Some (0, Some (packed s))
                 }
               }
      | _ \<Rightarrow> Some (- 1, packed_buf))"

text \<open>
  The local variables of \<^verbatim>\<open>ternary_to_float_matrix\<close> that its loops change, together
  with the output matrix (\<^verbatim>\<open>trits\<close>, \<^verbatim>\<open>packed_index\<close> and \<^verbatim>\<open>matrix\<close> of the source are
  \<open>dec_trits\<close>, \<open>dec_index\<close> and \<open>dec_matrix\<close> here). A \<^verbatim>\<open>return -1\<close> from inside the
  loops is \<open>Return_error\<close>, with the state at that moment.
\<close>

record dec_state =
  dec_trits :: "trit list"
  unpacked :: "trit list"
  unpack_pos :: nat
  dec_index :: nat
  dec_matrix :: "f32 list"

datatype 's flow = Continue 's | Return_error 's

text \<open>The test \<^verbatim>\<open>if (unpack_pos >= 5)\<close> with its body.\<close>

definition refill :: "u8 list \<Rightarrow> nat \<Rightarrow> dec_state \<Rightarrow> dec_state flow option" where
  "refill pk packed_size s =
     (if unpack_pos s \<ge> 5 then
        if dec_index s \<ge> packed_size then Some (Return_error s)
        else do {
          b \<leftarrow> rd pk (dec_index s);
          uo \<leftarrow> unpack_trits b (Some (unpacked s));
          u \<leftarrow> uo;
          Some (Continue (s\<lparr>dec_index := dec_index s + 1, unpacked := u, unpack_pos := 0\<rparr>))
        }
      else Some (Continue s))"

fun dec_inner :: "nat \<Rightarrow> nat \<Rightarrow> u8 list \<Rightarrow> nat \<Rightarrow> dec_state \<Rightarrow> dec_state flow option" where
  "dec_inner 0 j pk packed_size s = Some (Continue s)"
| "dec_inner (Suc n) j pk packed_size s =
     do {
       f \<leftarrow> refill pk packed_size s;
       case f of
         Return_error s \<Rightarrow> Some (Return_error s)
       | Continue s \<Rightarrow>
           do {
             t \<leftarrow> rd (unpacked s) (unpack_pos s);
             ts \<leftarrow> wr (dec_trits s) j t;
             dec_inner n (Suc j) pk packed_size (s\<lparr>dec_trits := ts, unpack_pos := unpack_pos s + 1\<rparr>)
           }
     }"

fun dec_outer ::
  "nat \<Rightarrow> nat \<Rightarrow> u8 list \<Rightarrow> nat \<Rightarrow> int \<Rightarrow> dec_state \<Rightarrow> dec_state flow option" where
  "dec_outer 0 i pk packed_size trits_per_val s = Some (Continue s)"
| "dec_outer (Suc n) i pk packed_size trits_per_val s =
     do {
       f \<leftarrow> dec_inner (nat trits_per_val) 0 pk packed_size s;
       case f of
         Return_error s \<Rightarrow> Some (Return_error s)
       | Continue s \<Rightarrow>
           do {
             v \<leftarrow> balanced_ternary_to_float (Some (dec_trits s)) trits_per_val;
             mx \<leftarrow> wr (dec_matrix s) i v;
             dec_outer n (Suc i) pk packed_size trits_per_val (s\<lparr>dec_matrix := mx\<rparr>)
           }
     }"

text \<open>
  The result of \<^verbatim>\<open>ternary_to_float_matrix\<close> is its return value together with the
  output matrix afterwards. The arrays \<^verbatim>\<open>trits\<close> and \<^verbatim>\<open>unpacked\<close> start uninitialised in the
  source; no element of them is read before it is written, and the model starts them
  at zero.
\<close>

definition ternary_to_float_matrix ::
  "u8 list option \<Rightarrow> nat \<Rightarrow> int \<Rightarrow> f32 list option \<Rightarrow> int \<Rightarrow> int \<Rightarrow>
   (int \<times> f32 list option) option" where
  "ternary_to_float_matrix packed_buf packed_size trits_per_val matrix rows cols =
     (case (packed_buf, matrix) of
        (Some pk, Some m) \<Rightarrow>
          if rows \<le> 0 \<or> cols \<le> 0 \<or> trits_per_val \<le> 0 then Some (- 1, matrix)
          else if trits_per_val > 64 then Some (- 1, matrix)
          else do {
            n \<leftarrow> int_mul rows cols;
            f \<leftarrow> dec_outer (nat n) 0 pk packed_size trits_per_val
                   \<lparr>dec_trits = replicate 64 0, unpacked = replicate 5 0, unpack_pos = 5,
                    dec_index = 0, dec_matrix = m\<rparr>;
            case f of
              Return_error s \<Rightarrow> Some (- 1, Some (dec_matrix s))
            | Continue s \<Rightarrow> Some (0, Some (dec_matrix s))
          }
      | _ \<Rightarrow> Some (- 1, matrix))"

section \<open>Loop invariants\<close>

text \<open>
  After \<open>t\<close> trits have gone through the accumulator of \<^verbatim>\<open>float_matrix_to_ternary\<close>,
  \<open>t div 5\<close> bytes are written and \<open>t mod 5\<close> trits wait in \<^verbatim>\<open>trit_buffer\<close>; \<open>L\<close> is the
  length of the output buffer.
\<close>

definition enc_inv :: "nat \<Rightarrow> nat \<Rightarrow> enc_state \<Rightarrow> bool" where
  "enc_inv L t s \<longleftrightarrow>
     packed_index s = t div 5 \<and> buffer_pos s = t mod 5 \<and> length (trit_buffer s) = 5
     \<and> length (trits s) = 64 \<and> length (packed s) = L"

text \<open>
  After \<open>t\<close> trits have been handed out by \<^verbatim>\<open>ternary_to_float_matrix\<close>, the bytes below
  \<open>(t + 4) div 5\<close> are consumed, none of them at or beyond \<^verbatim>\<open>packed_size\<close>.
\<close>

definition dec_inv :: "nat \<Rightarrow> nat \<Rightarrow> dec_state \<Rightarrow> bool" where
  "dec_inv psz t s \<longleftrightarrow>
     dec_index s = (t + 4) div 5 \<and> unpack_pos s + 5 * dec_index s = t + 5
     \<and> length (unpacked s) = 5 \<and> length (dec_trits s) = 64 \<and> dec_index s \<le> psz"

section \<open>Properties of the byte packer\<close>

lemma unpack_trits_Some5:
  assumes "5 \<le> length ts"
  shows "unpack_trits p (Some ts) =
     Some (Some ([uint p mod 3 - 1,
                  uint (p div 3) mod 3 - 1,
                  uint (p div 3 div 3) mod 3 - 1,
                  uint (p div 3 div 3 div 3) mod 3 - 1,
                  uint (p div 3 div 3 div 3 div 3) mod 3 - 1] @ drop 5 ts))"
proof -
  obtain x0 x1 x2 x3 x4 r where "ts = x0 # x1 # x2 # x3 # x4 # r"
    using assms by (auto simp: Suc_le_length_iff numeral_eq_Suc)
  then show ?thesis
    by (simp add: unpack_trits_def wr_def Let_def)
qed

lemma is_trit_cases:
  "t \<in> {-1, 0, 1 :: int} \<Longrightarrow> (t = -1 \<Longrightarrow> P) \<Longrightarrow> (t = 0 \<Longrightarrow> P) \<Longrightarrow> (t = 1 \<Longrightarrow> P) \<Longrightarrow> P"
  by auto

lemma pack_trits_digits:
  assumes "t0 \<in> {-1, 0, 1}" "t1 \<in> {-1, 0, 1}" "t2 \<in> {-1, 0, 1}"
    "t3 \<in> {-1, 0, 1}" "t4 \<in> {-1, 0, 1}"
  defines "p \<equiv> pack_trits t0 t1 t2 t3 t4"
  shows "uint p mod 3 - 1 = t0"
    and "uint (p div 3) mod 3 - 1 = t1"
    and "uint (p div 3 div 3) mod 3 - 1 = t2"
    and "uint (p div 3 div 3 div 3) mod 3 - 1 = t3"
    and "uint (p div 3 div 3 div 3 div 3) mod 3 - 1 = t4"
    and "uint p \<le> 242"
  using assms(1-5) unfolding p_def pack_trits_def
  by (elim is_trit_cases; simp)+

lemma trit_of_mod3: "uint (p :: u8) mod 3 - 1 \<in> {-1, 0, 1}"
proof -
  have "0 \<le> uint p mod 3" "uint p mod 3 < 3" by simp_all
  then show ?thesis by auto
qed

text \<open>
  \<^bold>\<open>C2\<close> (pack/unpack bijection). For every five trits, each in \<open>{-1, 0, +1}\<close>,
  unpacking the byte that \<^verbatim>\<open>pack_trits\<close> returns writes exactly these five trits, in
  the same order, into the first five elements of the caller's array (and leaves the
  rest of the array alone), and the byte lies in \<open>[0, 242]\<close>.
\<close>

theorem pack_unpack_bijection:
  assumes "t0 \<in> {-1, 0, 1}" "t1 \<in> {-1, 0, 1}" "t2 \<in> {-1, 0, 1}"
    "t3 \<in> {-1, 0, 1}" "t4 \<in> {-1, 0, 1}" and "5 \<le> length ts"
  shows "unpack_trits (pack_trits t0 t1 t2 t3 t4) (Some ts)
           = Some (Some ([t0, t1, t2, t3, t4] @ drop 5 ts))
         \<and> 0 \<le> uint (pack_trits t0 t1 t2 t3 t4) \<and> uint (pack_trits t0 t1 t2 t3 t4) \<le> 242"
  using assms
  by (simp add: unpack_trits_Some5 pack_trits_digits)

text \<open>The theorem at the trits \<open>(-1, 0, 1, 1, -1)\<close> and a five-element array.\<close>

theorem pack_unpack_bijection_witness:
  "(- 1 :: int) \<in> {-1, 0, 1} \<and> (0 :: int) \<in> {-1, 0, 1} \<and> (1 :: int) \<in> {-1, 0, 1}
   \<and> 5 \<le> length [0, 0, 0, 0, 0 :: int]
   \<and> unpack_trits (pack_trits (- 1) 0 1 1 (- 1)) (Some [0, 0, 0, 0, 0])
         = Some (Some [- 1, 0, 1, 1, - 1])
   \<and> uint (pack_trits (- 1) 0 1 1 (- 1)) \<le> 242"
  using pack_unpack_bijection [of "- 1" 0 1 1 "- 1" "[0, 0, 0, 0, 0]"]
  by simp

text \<open>
  \<^bold>\<open>C8\<close> (unpack is total). On every byte, also the bytes \<open>243..255\<close> that
  \<^verbatim>\<open>pack_trits\<close> never returns, \<^verbatim>\<open>unpack_trits\<close> returns normally and has written five
  trits, each in \<open>{-1, 0, +1}\<close>, into the first five elements of the array.
\<close>

theorem unpack_trits_total:
  assumes "5 \<le> length ts"
  shows "\<exists>t0 t1 t2 t3 t4.
           unpack_trits p (Some ts) = Some (Some ([t0, t1, t2, t3, t4] @ drop 5 ts))
           \<and> t0 \<in> {-1, 0, 1} \<and> t1 \<in> {-1, 0, 1} \<and> t2 \<in> {-1, 0, 1}
           \<and> t3 \<in> {-1, 0, 1} \<and> t4 \<in> {-1, 0, 1}"
  using assms trit_of_mod3
  by (simp add: unpack_trits_Some5)

text \<open>The theorem at the byte 255 and a five-element array.\<close>

theorem unpack_trits_total_witness:
  "5 \<le> length [7, 7, 7, 7, 7 :: int]
   \<and> (\<exists>t0 t1 t2 t3 t4.
           unpack_trits 255 (Some [7, 7, 7, 7, 7])
             = Some (Some ([t0, t1, t2, t3, t4] @ drop 5 [7, 7, 7, 7, 7]))
           \<and> t0 \<in> {-1, 0, 1} \<and> t1 \<in> {-1, 0, 1} \<and> t2 \<in> {-1, 0, 1}
           \<and> t3 \<in> {-1, 0, 1} \<and> t4 \<in> {-1, 0, 1})"
  using unpack_trits_total [of "[7, 7, 7, 7, 7]" 255]
  by simp

section \<open>Properties of the buffer size\<close>

lemma size_t_nonneg: "0 \<le> x \<Longrightarrow> x < 2 ^ 64 \<Longrightarrow> size_t x = nat x"
  by (simp add: size_t_def)

lemma calculate_packed_size_exact:
  assumes "0 < rows" "0 < cols" "0 < tpv" and "rows * cols * tpv + 4 < 2 ^ 64"
  shows "calculate_packed_size rows cols tpv = nat ((rows * cols * tpv + 4) div 5)"
proof -
  have rc: "0 < rows * cols" using assms by simp
  have r1: "1 \<le> rows" and c1: "1 \<le> cols" and t1: "1 \<le> tpv"
    using assms by simp_all
  have rc1: "1 \<le> rows * cols" using rc by linarith
  have "rows * cols * 1 \<le> rows * cols * tpv"
    by (rule mult_left_mono) (use t1 rc1 in linarith)+
  then have rcb: "rows * cols < 2 ^ 64" using assms(4) by simp
  have "rows * 1 \<le> rows * cols"
    by (rule mult_left_mono) (use c1 r1 in simp_all)
  then have rb: "rows < 2 ^ 64" using rcb by simp
  have "1 * cols \<le> rows * cols"
    by (rule mult_right_mono) (use c1 r1 in simp_all)
  then have cb: "cols < 2 ^ 64" using rcb by simp
  have "1 * tpv \<le> (rows * cols) * tpv"
    by (rule mult_right_mono) (use t1 rc1 in linarith)+
  then have tb: "tpv < 2 ^ 64" using assms(4) by simp
  have m1: "nat rows * nat cols = nat (rows * cols)"
    using assms by (simp add: nat_mult_distrib)
  have m2: "nat (rows * cols) * nat tpv = nat (rows * cols * tpv)"
    using assms rc by (simp add: nat_mult_distrib)
  have lt1: "nat (rows * cols) < 2 ^ 64" using rcb rc by (simp add: nat_less_iff)
  have lt2: "nat (rows * cols * tpv) + 4 < 2 ^ 64"
    using assms(4) by (simp add: nat_less_iff nat_add_distrib)
  have lt3: "nat (rows * cols * tpv) < 2 ^ 64" using lt2 by simp
  have "calculate_packed_size rows cols tpv = (nat (rows * cols * tpv) + 4) div 5"
    using assms rb cb tb lt1 lt2 lt3
    by (simp add: calculate_packed_size_def size_t_nonneg m1 m2 Let_def)
  also have "\<dots> = nat ((rows * cols * tpv + 4) div 5)"
    using assms rc by (simp add: nat_div_distrib nat_add_distrib)
  finally show ?thesis .
qed

text \<open>
  \<^bold>\<open>C3\<close> as stated (for all positive \<^verbatim>\<open>rows\<close>, \<^verbatim>\<open>cols\<close>, \<^verbatim>\<open>trits_per_val\<close> the result is
  the ceiling of \<open>rows * cols * trits_per_val / 5\<close>) fails where the \<^verbatim>\<open>size_t\<close> product wraps:
  for \<open>2 ^ 30\<close> rows, \<open>2 ^ 30\<close> columns and 16 trits per value the product is \<open>2 ^ 64\<close>,
  \<^verbatim>\<open>total_trits\<close> is 0 and the function returns 0.
\<close>

theorem calculate_packed_size_wraps:
  "calculate_packed_size 1073741824 1073741824 16 = 0
   \<and> calculate_packed_size 1073741824 1073741824 16
       \<noteq> nat \<lceil>(1073741824 * 1073741824 * 16 :: rat) / 5\<rceil>
   \<and> calculate_packed_size 1073741824 1073741824 16
       \<noteq> nat ((1073741824 * 1073741824 * 16 + 4) div 5)"
  by (simp add: calculate_packed_size_def size_t_def)

text \<open>
  \<^bold>\<open>C3\<close>, amended (size formula). For all positive \<^verbatim>\<open>rows\<close>, \<^verbatim>\<open>cols\<close>, \<^verbatim>\<open>trits_per_val\<close>
  with \<open>rows * cols * trits_per_val + 4 < 2 ^ 64\<close>, \<^verbatim>\<open>calculate_packed_size\<close> returns
  \<open>(rows * cols * trits_per_val + 4) div 5\<close>, which is the ceiling of
  \<open>rows * cols * trits_per_val / 5\<close>; and it returns 6 for \<open>(2, 3, 5)\<close>, 1 for \<open>(1, 1, 1)\<close>
  and 9 for \<open>(3, 3, 5)\<close>.
\<close>

theorem calculate_packed_size_formula:
  "(0 < rows \<and> 0 < cols \<and> 0 < tpv \<and> rows * cols * tpv + 4 < 2 ^ 64 \<longrightarrow>
      calculate_packed_size rows cols tpv = nat ((rows * cols * tpv + 4) div 5)
      \<and> int (calculate_packed_size rows cols tpv) = \<lceil>(of_int (rows * cols * tpv) :: rat) / 5\<rceil>)
   \<and> calculate_packed_size 2 3 5 = 6
   \<and> calculate_packed_size 1 1 1 = 1
   \<and> calculate_packed_size 3 3 5 = 9"
proof -
  have ceil5: "\<lceil>(of_int n :: rat) / 5\<rceil> = (n + 4) div 5" for n :: int
  proof -
    have "\<lceil>(of_int n :: rat) / of_int 5\<rceil> = - ((- n) div 5)"
      unfolding ceiling_def using floor_divide_of_int_eq [of "- n" 5, where ?'a = rat]
      by simp
    also have "\<dots> = (n + 4) div 5" by presburger
    finally show ?thesis by simp
  qed
  have gen: "calculate_packed_size rows cols tpv = nat ((rows * cols * tpv + 4) div 5)
      \<and> int (calculate_packed_size rows cols tpv) = \<lceil>(of_int (rows * cols * tpv) :: rat) / 5\<rceil>"
    if h: "0 < rows" "0 < cols" "0 < tpv" "rows * cols * tpv + 4 < 2 ^ 64"
  proof -
    have e: "calculate_packed_size rows cols tpv = nat ((rows * cols * tpv + 4) div 5)"
      using h by (rule calculate_packed_size_exact)
    have "0 \<le> rows * cols * tpv" using h by simp
    then have "0 \<le> (rows * cols * tpv + 4) div 5" by simp
    then show ?thesis using e ceil5 [of "rows * cols * tpv"] by simp
  qed
  have c1: "calculate_packed_size 2 3 5 = 6" "calculate_packed_size 1 1 1 = 1"
    "calculate_packed_size 3 3 5 = 9"
    by (simp_all add: calculate_packed_size_def size_t_def)
  show ?thesis using gen c1 by blast
qed

text \<open>The amended formula at a \<open>3 \<times> 3\<close> matrix with 8 trits per value: 15 bytes.\<close>

theorem calculate_packed_size_formula_witness:
  "(0 :: int) < 3 \<and> (0 :: int) < 3 \<and> (0 :: int) < 8 \<and> (3 * 3 * 8 + 4 :: int) < 2 ^ 64
   \<and> calculate_packed_size 3 3 8 = nat ((3 * 3 * 8 + 4) div 5)
   \<and> calculate_packed_size 3 3 8 = 15"
  using calculate_packed_size_formula [of 3 3 8]
  by simp

section \<open>Evaluation of the model on numerals\<close>

lemma f32_quantum_numeral:
  "f32_quantum (numeral k) q a =
     (if a < q * 2 ^ 24 then Some q else f32_quantum (pred_numeral k) (2 * q) a)"
  by (simp add: numeral_eq_Suc)

lemma floor_rat_numeral:
  "\<lfloor>(numeral a :: rat) / numeral b\<rfloor> = numeral a div numeral b"
  using floor_divide_of_int_eq [of "numeral a" "numeral b", where ?'a = rat] by simp

lemma floor_rat_neg_numeral:
  "\<lfloor>- ((numeral a :: rat) / numeral b)\<rfloor> = - numeral a div numeral b"
  using floor_divide_of_int_eq [of "- numeral a" "numeral b", where ?'a = rat] by simp

lemma floor_rat_one:
  "\<lfloor>(1 :: rat) / numeral b\<rfloor> = 1 div numeral b"
  using floor_divide_of_int_eq [of 1 "numeral b", where ?'a = rat] by simp

lemma floor_rat_neg_one:
  "\<lfloor>- ((1 :: rat) / numeral b)\<rfloor> = - 1 div numeral b"
  using floor_divide_of_int_eq [of "- 1" "numeral b", where ?'a = rat] by simp

lemma replicate_numeral_eval:
  "replicate (numeral k) x = x # replicate (pred_numeral k) x"
  by (simp add: numeral_eq_Suc)

lemmas f32_eval = f32_round_def f32_quantum_numeral rne_def Let_def floor_rat_numeral
  floor_rat_neg_numeral floor_rat_one floor_rat_neg_one f32_of_int_def f32_mul_def f32_div_def round_half_away_def
  clamp_def signed_inf_def

lemmas int_eval = int32_def cdiv_def cmod_def max_val_def trit_step_def wr_def rd_def

lemma trits_loop_numeral:
  "trits_loop (numeral n) i k ts =
     (case trit_step k of
        (t, k') \<Rightarrow> do { ts' \<leftarrow> wr ts i t; trits_loop (pred_numeral n) (Suc i) k' ts' })"
  by (simp add: numeral_eq_Suc)

lemma value_loop_numeral:
  "value_loop (numeral n) i ts val pwr =
     (case rd ts i of
        None \<Rightarrow> None
      | Some t \<Rightarrow>
          value_loop (pred_numeral n) (Suc i) ts (int32 (val + int32 (t * pwr))) (int32 (pwr * 3)))"
  by (simp add: numeral_eq_Suc split: option.split)

lemma mul3_loop_numeral:
  "mul3_loop (numeral n) m = mul3_loop (pred_numeral n) (int32 (m * 3))"
  by (simp add: numeral_eq_Suc)

lemmas loop_eval = trits_loop_numeral value_loop_numeral mul3_loop_numeral

section \<open>Properties of the scalar codec\<close>

lemma int32_range: "- (2 ^ 31) \<le> int32 x" "int32 x < 2 ^ 31"
proof -
  have "0 \<le> (x + 2 ^ 31) mod 2 ^ 32" "(x + 2 ^ 31) mod 2 ^ 32 < (2 ^ 32 :: int)" by simp_all
  then show "- (2 ^ 31) \<le> int32 x" "int32 x < 2 ^ 31" by (simp_all add: int32_def)
qed

lemma int32_id: "- (2 ^ 31) \<le> x \<Longrightarrow> x < 2 ^ 31 \<Longrightarrow> int32 x = x"
  by (simp add: int32_def)

lemma mul3_loop_exact:
  "0 \<le> m \<Longrightarrow> m * 3 ^ n < 2 ^ 31 \<Longrightarrow> mul3_loop n m = m * 3 ^ n"
proof (induction n arbitrary: m)
  case 0
  then show ?case by simp
next
  case (Suc n)
  have "m * 3 * 1 \<le> m * 3 * 3 ^ n"
    by (rule mult_left_mono) (use Suc.prems in simp_all)
  then have "m * 3 < 2 ^ 31" using Suc.prems by (simp add: mult.assoc)
  then have "int32 (m * 3) = m * 3" using Suc.prems by (simp add: int32_id)
  then show ?case using Suc.IH [of "m * 3"] Suc.prems by (simp add: mult.assoc)
qed

lemma mul3_loop_range:
  "0 < n \<Longrightarrow> - (2 ^ 31) \<le> mul3_loop n m \<and> mul3_loop n m < 2 ^ 31"
proof (induction n arbitrary: m)
  case 0
  then show ?case by simp
next
  case (Suc n)
  show ?case
  proof (cases n)
    case 0
    then show ?thesis using int32_range [of "m * 3"] by simp
  next
    case (Suc k)
    then show ?thesis using Suc.IH [of "int32 (m * 3)"] by simp
  qed
qed

lemma cdiv2_bound: "- (2 ^ 31) \<le> a \<Longrightarrow> a < 2 ^ 31 \<Longrightarrow> \<bar>cdiv a 2\<bar> \<le> 2 ^ 30"
  by (auto simp: cdiv_def sgn_if abs_if)

lemma cdiv2_nonneg: "0 \<le> a \<Longrightarrow> cdiv a 2 = a div 2"
  by (auto simp: cdiv_def sgn_if)

lemma max_val_bound: "\<bar>max_val n\<bar> \<le> 2 ^ 30"
  unfolding max_val_def using int32_range by (intro cdiv2_bound) auto

lemma max_val_small:
  assumes "n \<le> 19"
  shows "max_val (int n) = (3 ^ n - 1) div 2"
proof -
  have "(3 :: int) ^ n \<le> 3 ^ 19" using assms by (intro power_increasing) auto
  then have b: "(3 :: int) ^ n < 2 ^ 31" by simp
  then have "mul3_loop n 1 = 3 ^ n" using mul3_loop_exact [of 1 n] by simp
  moreover have "(1 :: int) \<le> 3 ^ n" by simp
  then have "int32 (3 ^ n - 1) = 3 ^ n - 1" using b by (intro int32_id) linarith+
  ultimately show ?thesis
    by (simp add: max_val_def cdiv2_nonneg)
qed

lemma max_val_large:
  assumes "20 \<le> n"
  shows "max_val (int n) \<noteq> (3 ^ n - 1) div 2"
proof -
  have "(3 :: int) ^ 20 \<le> 3 ^ n" using assms by (intro power_increasing) auto
  then have "(3 ^ 20 - 1) div 2 \<le> ((3 :: int) ^ n - 1) div 2"
    by (intro zdiv_mono1) auto
  then have "2 ^ 30 < ((3 :: int) ^ n - 1) div 2" by simp
  then show ?thesis using max_val_bound [of "int n"] by linarith
qed

lemma value_loop_power:
  "i + n \<le> length ts \<Longrightarrow> \<exists>v. value_loop n i ts val pwr = Some (v, mul3_loop n pwr)"
proof (induction n arbitrary: i val pwr)
  case 0
  then show ?case by simp
next
  case (Suc n)
  then show ?case by (simp add: rd_def)
qed

lemma scalar_max_val:
  "(max_val (int n) = (3 ^ n - 1) div 2 \<longleftrightarrow> n \<le> 19)
   \<and> (n \<le> length ts \<longrightarrow>
        (\<exists>val pwr. value_loop n 0 ts 0 1 = Some (val, pwr)
                   \<and> cdiv (int32 (pwr - 1)) 2 = max_val (int n)))"
proof -
  have "n \<le> 19 \<or> 20 \<le> n" by linarith
  then have a: "max_val (int n) = (3 ^ n - 1) div 2 \<longleftrightarrow> n \<le> 19"
    using max_val_small [of n] max_val_large [of n] by auto
  have b: "\<exists>val pwr. value_loop n 0 ts 0 1 = Some (val, pwr)
                   \<and> cdiv (int32 (pwr - 1)) 2 = max_val (int n)" if "n \<le> length ts"
    using value_loop_power [of 0 n ts 0 1] that by (auto simp: max_val_def)
  show ?thesis using a b by blast
qed

lemma clamp_above: "f32_lt (Fin 1) v \<Longrightarrow> clamp v = Fin 1"
  by (cases v) (auto simp: clamp_def)

lemma clamp_below: "f32_lt v (Fin (- 1)) \<Longrightarrow> clamp v = Fin (- 1)"
  by (cases v) (auto simp: clamp_def)

lemma clamp_idem: "clamp (clamp v) = clamp v"
  by (cases v) (auto simp: clamp_def)

lemma ftb_clamp: "float_to_balanced_ternary v ts n = float_to_balanced_ternary (clamp v) ts n"
  by (cases ts) (simp_all add: float_to_balanced_ternary_def clamp_idem Let_def)

lemma ftb_one_4: "float_to_balanced_ternary (Fin 1) (Some [0, 0, 0, 0]) 4 = Some (0, Some [1, 1, 1, 1])"
  by (simp add: float_to_balanced_ternary_def f32_eval int_eval loop_eval)

lemma ftb_mone_4: "float_to_balanced_ternary (Fin (- 1)) (Some [0, 0, 0, 0]) 4 = Some (0, Some [- 1, - 1, - 1, - 1])"
  by (simp add: float_to_balanced_ternary_def f32_eval int_eval loop_eval)

text \<open>
  \<^bold>\<open>C9\<close> (clamping). A value above 1 (also \<open>+\<infinity>\<close>) is encoded exactly as 1.0 is, and a
  value below \<open>-1\<close> (also \<open>-\<infinity>\<close>) exactly as \<open>-1.0\<close> is: the same return code and the same
  array, for every array and every number of trits. In particular 2.5 and 1.0 agree at
  four trits, and so do \<open>-7.0\<close> and \<open>-1.0\<close>.
\<close>

theorem clamp_encodes_as_endpoint:
  "(f32_lt (Fin 1) v \<longrightarrow>
      float_to_balanced_ternary v ts n = float_to_balanced_ternary (Fin 1) ts n)
   \<and> (f32_lt v (Fin (- 1)) \<longrightarrow>
      float_to_balanced_ternary v ts n = float_to_balanced_ternary (Fin (- 1)) ts n)
   \<and> float_to_balanced_ternary (Fin (5 / 2)) ts 4 = float_to_balanced_ternary (Fin 1) ts 4
   \<and> float_to_balanced_ternary (Fin (- 7)) ts 4 = float_to_balanced_ternary (Fin (- 1)) ts 4"
proof -
  have a: "float_to_balanced_ternary v ts n = float_to_balanced_ternary (Fin 1) ts n"
    if "f32_lt (Fin 1) v" for v n
    using ftb_clamp [of v ts n] ftb_clamp [of "Fin 1" ts n] clamp_above [OF that]
    by (simp add: clamp_def)
  have b: "float_to_balanced_ternary v ts n = float_to_balanced_ternary (Fin (- 1)) ts n"
    if "f32_lt v (Fin (- 1))" for v n
    using ftb_clamp [of v ts n] ftb_clamp [of "Fin (- 1)" ts n] clamp_below [OF that]
    by (simp add: clamp_def)
  show ?thesis using a [of "Fin (5 / 2)" 4] b [of "Fin (- 7)" 4] a [of v n] b [of v n]
    by simp
qed

text \<open>The theorem at 2.5 and \<open>-7.0\<close> with four trits: all trits \<open>+1\<close>, and all trits \<open>-1\<close>.\<close>

theorem clamp_encodes_as_endpoint_witness:
  "f32_lt (Fin 1) (Fin (5 / 2)) \<and> f32_lt (Fin (- 7)) (Fin (- 1))
   \<and> float_to_balanced_ternary (Fin (5 / 2)) (Some [0, 0, 0, 0]) 4 = Some (0, Some [1, 1, 1, 1])
   \<and> float_to_balanced_ternary (Fin (- 7)) (Some [0, 0, 0, 0]) 4 = Some (0, Some [- 1, - 1, - 1, - 1])"
  using clamp_encodes_as_endpoint [of "Fin (5 / 2)" "Some [0, 0, 0, 0]" 4]
    clamp_encodes_as_endpoint [of "Fin (- 7)" "Some [0, 0, 0, 0]" 4]
  by (simp add: ftb_one_4 ftb_mone_4)

text \<open>
  \<^bold>\<open>C1\<close> (scalar round trip) does not hold of the code. The conversion loop adds 3 to a
  negative remainder and then divides \<^verbatim>\<open>k\<close> by 3 with C's truncating division, which is
  one too large whenever \<^verbatim>\<open>k\<close> is negative and the trit is \<open>+1\<close>. At \<open>value = -0.5\<close> and two
  trits: \<^verbatim>\<open>max_val\<close> is 4, \<^verbatim>\<open>k\<close> is \<open>-2\<close>, the trits written are \<open>(1, 0)\<close>, which decode to
  \<open>0.25\<close>; the error \<open>0.75\<close> is above \<open>1 / max_val = 0.25\<close>.
\<close>

theorem scalar_roundtrip_negative:
  "float_to_balanced_ternary (Fin (- 1 / 2)) (Some [0, 0]) 2 = Some (0, Some [1, 0])
   \<and> balanced_ternary_to_float (Some [1, 0]) 2 = Some (Fin (1 / 4))
   \<and> max_val 2 = (3 ^ 2 - 1) div 2
   \<and> \<not> \<bar>(1 / 4 :: rat) - (- 1 / 2)\<bar> \<le> 1 / of_int (max_val 2)"
  by (simp add: float_to_balanced_ternary_def balanced_ternary_to_float_def f32_eval int_eval loop_eval)

text \<open>
  A second way in which the round trip breaks, on a positive value: with 19 trits
  \<^verbatim>\<open>max_val\<close> is 581130733, which \<^verbatim>\<open>(float)max_val\<close> rounds up to 581130752; at
  \<open>value = 1.0\<close> the scaled \<^verbatim>\<open>k\<close> is above \<^verbatim>\<open>max_val\<close>, the nineteen trits wrap around,
  and they decode to \<open>-8388607 / 8388608\<close>.
\<close>

lemma scalar_roundtrip_19_trits:
  "max_val 19 = (3 ^ 19 - 1) div 2
   \<and> f32_of_int (max_val 19) = Fin 581130752
   \<and> float_to_balanced_ternary (Fin 1) (Some (replicate 19 0)) 19
       = Some (0, Some [- 1, - 1, 1, - 1, - 1, - 1, - 1, - 1, - 1, - 1, - 1, - 1, - 1, - 1,
                        - 1, - 1, - 1, - 1, - 1])
   \<and> balanced_ternary_to_float
         (Some [- 1, - 1, 1, - 1, - 1, - 1, - 1, - 1, - 1, - 1, - 1, - 1, - 1, - 1,
                - 1, - 1, - 1, - 1, - 1]) 19
       = Some (Fin (- (8388607 / 8388608)))"
  by (simp add: float_to_balanced_ternary_def balanced_ternary_to_float_def f32_eval int_eval
      loop_eval replicate_numeral_eval)

section \<open>Rounding stays in range\<close>

lemma f32_quantum_Some:
  "f32_quantum n q a = Some q' \<Longrightarrow> a < q' * 2 ^ 24 \<and> (q' = q \<or> q' * 2 ^ 23 \<le> a)"
proof (induction n arbitrary: q)
  case 0
  then show ?case by simp
next
  case (Suc n)
  show ?case
  proof (cases "a < q * 2 ^ 24")
    case True
    then show ?thesis using Suc.prems by simp
  next
    case False
    then have r: "f32_quantum n (2 * q) a = Some q'" using Suc.prems by simp
    from Suc.IH [OF r] have "a < q' * 2 ^ 24" and d: "q' = 2 * q \<or> q' * 2 ^ 23 \<le> a" by simp_all
    moreover have "q' * 2 ^ 23 \<le> a" using d False by auto
    ultimately show ?thesis by simp
  qed
qed

lemma f32_quantum_defined:
  "0 < n \<Longrightarrow> a < q * 2 ^ (23 + n) \<Longrightarrow> f32_quantum n q a \<noteq> None"
proof (induction n arbitrary: q)
  case 0
  then show ?case by simp
next
  case (Suc n)
  show ?case
  proof (cases "a < q * 2 ^ 24")
    case True
    then show ?thesis by simp
  next
    case False
    have "n \<noteq> 0"
    proof
      assume "n = 0"
      then show False using Suc.prems False by simp
    qed
    moreover have "(2 :: rat) ^ (23 + Suc n) = 2 * 2 ^ (23 + n)"
      by (simp only: add_Suc_right power_Suc)
    then have "a < (2 * q) * 2 ^ (23 + n)" using Suc.prems(2) by (simp only: mult_ac)
    ultimately have "f32_quantum n (2 * q) a \<noteq> None" using Suc.IH [of "2 * q"] by simp
    then show ?thesis using False by simp
  qed
qed

lemma rne_near: "\<bar>of_int (rne z) - z\<bar> \<le> 1 / 2"
proof -
  have b: "of_int \<lfloor>z\<rfloor> \<le> z" "z < of_int \<lfloor>z\<rfloor> + 1" by linarith+
  consider "rne z = \<lfloor>z\<rfloor>" "z - of_int \<lfloor>z\<rfloor> \<le> 1 / 2"
    | "rne z = \<lfloor>z\<rfloor> + 1" "1 / 2 \<le> z - of_int \<lfloor>z\<rfloor>"
    unfolding rne_def Let_def by (cases "z - of_int \<lfloor>z\<rfloor> < 1 / 2"; cases "1 / 2 < z - of_int \<lfloor>z\<rfloor>"; cases "even \<lfloor>z\<rfloor>") auto
  then show ?thesis
  proof cases
    case 1
    then have "of_int (rne z) - z = of_int \<lfloor>z\<rfloor> - z" by simp
    then show ?thesis using b 1(2) unfolding abs_le_iff by linarith
  next
    case 2
    then have "of_int (rne z) - z = of_int \<lfloor>z\<rfloor> + 1 - z" by simp
    then show ?thesis using b 2(2) unfolding abs_le_iff by linarith
  qed
qed

lemma f32_round_near:
  assumes "\<bar>x\<bar> < 2 ^ 31"
  shows "\<exists>y. f32_round x = Fin y \<and> \<bar>y - x\<bar> \<le> 128"
proof -
  have "\<bar>x\<bar> < (1 / 2 ^ 149) * 2 ^ (23 + 254)" using assms by simp
  then have "f32_quantum 254 (1 / 2 ^ 149) \<bar>x\<bar> \<noteq> None"
    by (intro f32_quantum_defined) simp_all
  then obtain q where q: "f32_quantum 254 (1 / 2 ^ 149) \<bar>x\<bar> = Some q" by auto
  from f32_quantum_Some [OF q] have "q = 1 / 2 ^ 149 \<or> q * 2 ^ 23 \<le> \<bar>x\<bar>" and up: "\<bar>x\<bar> < q * 2 ^ 24"
    by simp_all
  then have qle: "q \<le> 256" using assms by auto
  have "0 < q * 2 ^ 24" using up abs_ge_zero [of x] by linarith
  then have qpos: "0 < q" by (simp add: zero_less_mult_iff)
  define y where "y = of_int (rne (x / q)) * q"
  have "y - x = (of_int (rne (x / q)) - x / q) * q"
    using qpos by (simp add: y_def left_diff_distrib)
  then have "\<bar>y - x\<bar> = \<bar>of_int (rne (x / q)) - x / q\<bar> * q"
    using qpos by (simp add: abs_mult)
  also have "\<dots> \<le> (1 / 2) * q" using rne_near [of "x / q"] qpos by (intro mult_right_mono) simp_all
  also have "\<dots> \<le> 128" using qle by simp
  finally have near: "\<bar>y - x\<bar> \<le> 128" .
  then have "\<bar>y\<bar> < 2 ^ 128" using assms by (simp add: abs_if split: if_splits)
  then have "f32_round x = Fin y" using q
    by (simp add: f32_round_def y_def [symmetric] Let_def abs_if split: if_splits)
  then show ?thesis using near by blast
qed

lemma clamp_fin: "v \<noteq> NaN \<Longrightarrow> \<exists>c. clamp v = Fin c \<and> \<bar>c\<bar> \<le> 1"
  by (cases v) (auto simp: clamp_def)

lemma round_half_away_bound:
  assumes "\<bar>y\<bar> \<le> of_int b"
  shows "\<bar>round_half_away y\<bar> \<le> b + 1"
proof (cases "0 \<le> y")
  case True
  then have "\<lfloor>y + 1 / 2\<rfloor> \<le> b + 1" using assms by (intro floor_le_iff [THEN iffD2]) (simp_all)
  moreover have "0 \<le> \<lfloor>y + 1 / 2\<rfloor>" using True by simp
  ultimately show ?thesis using True by (simp add: round_half_away_def)
next
  case False
  then have "\<lfloor>- y + 1 / 2\<rfloor> \<le> b + 1" using assms by (intro floor_le_iff [THEN iffD2]) (simp_all)
  moreover have "0 \<le> \<lfloor>- y + 1 / 2\<rfloor>" using False by simp
  ultimately show ?thesis using False by (simp add: round_half_away_def)
qed

lemma f32_to_int_of_int:
  "- (2 ^ 31) \<le> k \<Longrightarrow> k < 2 ^ 31 \<Longrightarrow> f32_to_int (Fin (of_int k)) = Some k"
  by (simp add: Let_def)

lemma scaled_value_defined:
  assumes "v \<noteq> NaN"
  shows "\<exists>k. f32_to_int (roundf (f32_mul (clamp v) (f32_of_int (max_val n)))) = Some k"
proof -
  obtain c where c: "clamp v = Fin c" "\<bar>c\<bar> \<le> 1" using clamp_fin [OF assms] by blast
  have mv: "\<bar>(of_int (max_val n) :: rat)\<bar> \<le> 2 ^ 30"
    using max_val_bound [of n] by (metis of_int_abs of_int_le_iff of_int_numeral of_int_power)
  then have "\<bar>(of_int (max_val n) :: rat)\<bar> < 2 ^ 31" by simp
  from f32_round_near [OF this] obtain y1
    where y1: "f32_of_int (max_val n) = Fin y1" "\<bar>y1 - of_int (max_val n)\<bar> \<le> 128"
    by (auto simp: f32_of_int_def)
  have y1b: "\<bar>y1\<bar> \<le> 2 ^ 30 + 128" using y1(2) mv by linarith
  have "\<bar>c * y1\<bar> \<le> 1 * \<bar>y1\<bar>" unfolding abs_mult using c(2) by (intro mult_right_mono) simp_all
  then have cy: "\<bar>c * y1\<bar> \<le> 2 ^ 30 + 128" using y1b by simp
  then have "\<bar>c * y1\<bar> < 2 ^ 31" by simp
  from f32_round_near [OF this] obtain y2
    where y2: "f32_round (c * y1) = Fin y2" "\<bar>y2 - c * y1\<bar> \<le> 128" by blast
  have "\<bar>y2\<bar> \<le> 2 ^ 30 + 256" using y2(2) cy by linarith
  then have "\<bar>y2\<bar> \<le> of_int (2 ^ 30 + 256)" by simp
  from round_half_away_bound [OF this] have "\<bar>round_half_away y2\<bar> \<le> 2 ^ 30 + 256 + 1" .
  then have "- (2 ^ 31) \<le> round_half_away y2" "round_half_away y2 < 2 ^ 31" by simp_all
  then have "f32_to_int (Fin (of_int (round_half_away y2))) = Some (round_half_away y2)"
    by (rule f32_to_int_of_int)
  then show ?thesis using c(1) y1(1) y2(1) by (simp add: f32_mul_def)
qed

lemma trits_loop_succeeds:
  "i + n \<le> length ts \<Longrightarrow> \<exists>ts'. trits_loop n i k ts = Some ts' \<and> length ts' = length ts"
proof (induction n arbitrary: i k ts)
  case 0
  then show ?case by simp
next
  case (Suc n)
  obtain t k' where st: "trit_step k = (t, k')" by (cases "trit_step k")
  have "Suc i + n \<le> length (ts[i := t])" using Suc.prems by simp
  from Suc.IH [OF this] show ?case using st Suc.prems by (simp add: wr_def)
qed

lemma ftb_succeeds:
  assumes "v \<noteq> NaN" "1 \<le> n" "nat n \<le> length ts"
  shows "\<exists>ts'. float_to_balanced_ternary v (Some ts) n = Some (0, Some ts')
               \<and> length ts' = length ts"
proof -
  obtain k where k: "f32_to_int (roundf (f32_mul (clamp v) (f32_of_int (max_val n)))) = Some k"
    using scaled_value_defined [OF assms(1)] by blast
  obtain ts' where "trits_loop (nat n) 0 k ts = Some ts'" "length ts' = length ts"
    using trits_loop_succeeds [of 0 "nat n" ts k] assms(3) by auto
  then show ?thesis using k assms(2) by (simp add: float_to_balanced_ternary_def)
qed

section \<open>The encoder returns normally on valid arguments\<close>

lemma pack_buffer_defined: "length tb = 5 \<Longrightarrow> \<exists>b. pack_buffer tb = Some b"
  by (simp add: pack_buffer_def rd_def)

lemma div5_step:
  fixes t :: nat
  shows "t mod 5 = 4 \<Longrightarrow> Suc t div 5 = Suc (t div 5) \<and> Suc t mod 5 = 0"
    and "t mod 5 \<noteq> 4 \<Longrightarrow> Suc t div 5 = t div 5 \<and> Suc t mod 5 = Suc (t mod 5)"
  by presburger+

lemma enc_inner_inv:
  "enc_inv L t s \<Longrightarrow> j + n \<le> 64 \<Longrightarrow> (t + n) div 5 \<le> L \<Longrightarrow>
   \<exists>s'. enc_inner n j s = Some s' \<and> enc_inv L (t + n) s'"
proof (induction n arbitrary: t j s)
  case 0
  then show ?case by simp
next
  case (Suc n)
  let ?tb = "(trit_buffer s)[buffer_pos s := trits s ! j]"
  let ?s1 = "s\<lparr>trit_buffer := ?tb, buffer_pos := buffer_pos s + 1\<rparr>"
  have inv: "packed_index s = t div 5" "buffer_pos s = t mod 5" "length (trit_buffer s) = 5"
    "length (trits s) = 64" "length (packed s) = L"
    using Suc.prems(1) by (simp_all add: enc_inv_def)
  have rdj: "rd (trits s) j = Some (trits s ! j)" using inv Suc.prems(2) by (simp add: rd_def)
  have wrb: "wr (trit_buffer s) (buffer_pos s) (trits s ! j) = Some ?tb"
    using inv by (simp add: wr_def)
  have mono: "Suc t div 5 \<le> (t + Suc n) div 5" by (intro div_le_mono) simp
  show ?case
  proof (cases "t mod 5 = 4")
    case True
    obtain b where b: "pack_buffer ?tb = Some b" using pack_buffer_defined [of ?tb] inv by auto
    let ?s2 = "?s1\<lparr>packed := (packed s)[packed_index s := b],
                    packed_index := packed_index s + 1, buffer_pos := 0\<rparr>"
    have lt: "packed_index s < L" using div5_step(1) [OF True] mono Suc.prems(3) inv by simp
    have inv2: "enc_inv L (Suc t) ?s2"
      using inv div5_step(1) [OF True] by (simp add: enc_inv_def)
    have "Suc j + n \<le> 64" "(Suc t + n) div 5 \<le> L" using Suc.prems by simp_all
    from Suc.IH [OF inv2 this] obtain s' where "enc_inner n (Suc j) ?s2 = Some s'"
      "enc_inv L (Suc t + n) s'" by blast
    then show ?thesis using rdj wrb b lt inv True by (simp add: wr_def Let_def)
  next
    case False
    have inv1: "enc_inv L (Suc t) ?s1"
      using inv div5_step(2) [OF False] by (simp add: enc_inv_def)
    have "Suc j + n \<le> 64" "(Suc t + n) div 5 \<le> L" using Suc.prems by simp_all
    from Suc.IH [OF inv1 this] obtain s' where "enc_inner n (Suc j) ?s1 = Some s'"
      "enc_inv L (Suc t + n) s'" by blast
    moreover have "t mod 5 < 5" by simp
    then have "Suc (t mod 5) \<noteq> 5" using False by linarith
    ultimately show ?thesis using rdj wrb inv by (simp add: Let_def)
  qed
qed

lemma enc_outer_inv:
  assumes "1 \<le> tpv" "tpv \<le> 64" "NaN \<notin> set m"
  shows "enc_inv L t s \<Longrightarrow> i + n \<le> length m \<Longrightarrow> (t + n * nat tpv) div 5 \<le> L \<Longrightarrow>
         \<exists>s'. enc_outer n i m tpv s = Some s' \<and> enc_inv L (t + n * nat tpv) s'"
proof (induction n arbitrary: t i s)
  case 0
  then show ?case by simp
next
  case (Suc n)
  have il: "i < length m" using Suc.prems(2) by simp
  then have "m ! i \<noteq> NaN" using assms(3) nth_mem by metis
  moreover have "nat tpv \<le> length (trits s)" using Suc.prems(1) assms(2) by (simp add: enc_inv_def)
  ultimately obtain ts where ts: "float_to_balanced_ternary (m ! i) (Some (trits s)) tpv = Some (0, Some ts)"
    "length ts = length (trits s)"
    using ftb_succeeds [of "m ! i" tpv "trits s"] assms(1) by blast
  have inv0: "enc_inv L t (s\<lparr>trits := ts\<rparr>)" using Suc.prems(1) ts(2) by (simp add: enc_inv_def)
  have "(t + nat tpv) div 5 \<le> (t + Suc n * nat tpv) div 5" by (intro div_le_mono) simp
  then have "0 + nat tpv \<le> 64" "(t + nat tpv) div 5 \<le> L" using assms(2) Suc.prems(3) by simp_all
  from enc_inner_inv [OF inv0 this] obtain s1
    where s1: "enc_inner (nat tpv) 0 (s\<lparr>trits := ts\<rparr>) = Some s1" "enc_inv L (t + nat tpv) s1"
    by blast
  have "Suc i + n \<le> length m" "(t + nat tpv + n * nat tpv) div 5 \<le> L"
    using Suc.prems by (simp_all add: add.assoc)
  from Suc.IH [OF s1(2) this] obtain s' where "enc_outer n (Suc i) m tpv s1 = Some s'"
    "enc_inv L (t + nat tpv + n * nat tpv) s'" by blast
  then show ?case using il ts(1) s1(1) by (simp add: rd_def add.assoc)
qed

lemma pad_buffer_defined:
  "length (trit_buffer s) = 5 \<Longrightarrow>
   \<exists>s'. pad_buffer s = Some s' \<and> length (trit_buffer s') = 5
        \<and> packed s' = packed s \<and> packed_index s' = packed_index s"
proof (induction s rule: pad_buffer.induct)
  case (1 s)
  show ?case
  proof (cases "buffer_pos s < 5")
    case True
    let ?tb = "(trit_buffer s)[buffer_pos s := 0]"
    have w: "wr (trit_buffer s) (buffer_pos s) 0 = Some ?tb" using True "1.prems" by (simp add: wr_def)
    have "length (trit_buffer (s\<lparr>trit_buffer := ?tb, buffer_pos := buffer_pos s + 1\<rparr>)) = 5"
      using "1.prems" by simp
    from "1.IH" [OF True w this] show ?thesis using True w
      by (subst pad_buffer.simps) simp
  next
    case False
    then show ?thesis using "1.prems" by (subst pad_buffer.simps) simp
  qed
qed

lemma element_count:
  assumes "0 < rows" "0 < cols" "rows * cols < 2 ^ 31"
  shows "int_mul rows cols = Some (rows * cols)"
proof -
  have "0 \<le> rows * cols" using assms by simp
  moreover have "- (2 ^ 31) \<le> (0 :: int)" by simp
  ultimately have "- (2 ^ 31) \<le> rows * cols" by (rule order_trans [rotated])
  then show ?thesis using assms(3) by (simp add: int_mul_def)
qed

lemma packed_size_of_count:
  assumes "0 < rows" "0 < cols" "1 \<le> tpv" "tpv \<le> 64" "rows * cols < 2 ^ 31"
  shows "calculate_packed_size rows cols tpv = (nat (rows * cols) * nat tpv + 4) div 5"
proof -
  have rc: "0 < rows * cols" using assms by simp
  have "rows * cols * tpv \<le> rows * cols * 64"
    by (rule mult_left_mono) (use assms rc in simp_all)
  then have "rows * cols * tpv + 4 < 2 ^ 64" using assms(5) by simp
  then have "calculate_packed_size rows cols tpv = nat ((rows * cols * tpv + 4) div 5)"
    using assms by (intro calculate_packed_size_exact) simp_all
  also have "\<dots> = (nat (rows * cols) * nat tpv + 4) div 5"
    using assms rc by (simp add: nat_div_distrib nat_add_distrib nat_mult_distrib)
  finally show ?thesis .
qed

lemma encode_succeeds:
  assumes "nat (rows * cols) \<le> length m" "NaN \<notin> set m" "packed_size \<le> length pk"
    and "0 < rows" "0 < cols" "1 \<le> tpv" "tpv \<le> 64" "rows * cols < 2 ^ 31"
    and "calculate_packed_size rows cols tpv \<le> packed_size"
  shows "\<exists>pk'. float_matrix_to_ternary (Some m) rows cols tpv (Some pk) packed_size
                 = Some (0, Some pk') \<and> length pk' = length pk"
proof -
  let ?n = "nat (rows * cols)" and ?T = "nat tpv" and ?L = "length pk"
  let ?pk0 = "replicate packed_size 0 @ drop packed_size pk"
  let ?s0 = "\<lparr>trits = replicate 64 0, trit_buffer = [0, 0, 0, 0, 0],
             buffer_pos = 0, packed_index = 0, packed = ?pk0\<rparr>"
  have cps: "calculate_packed_size rows cols tpv = (?n * ?T + 4) div 5"
    using assms by (intro packed_size_of_count)
  then have need: "(?n * ?T + 4) div 5 \<le> ?L" using assms(3,9) by simp
  have cnt: "int_mul rows cols = Some (rows * cols)" using assms by (intro element_count)
  have ms: "memset_zero pk packed_size = Some ?pk0" using assms(3) by (simp add: memset_zero_def)
  have inv0: "enc_inv ?L 0 ?s0" using assms(3) by (simp add: enc_inv_def)
  have "(?n * ?T) div 5 \<le> (?n * ?T + 4) div 5" by (intro div_le_mono) simp
  then have "0 + ?n \<le> length m" "(0 + ?n * ?T) div 5 \<le> ?L" using assms(1) need by simp_all
  from enc_outer_inv [OF assms(6,7,2) inv0 this] obtain s1
    where s1: "enc_outer ?n 0 m tpv ?s0 = Some s1" "enc_inv ?L (?n * ?T) s1" by auto
  have guards: "\<not> (rows \<le> 0 \<or> cols \<le> 0 \<or> tpv \<le> 0)" "\<not> packed_size < calculate_packed_size rows cols tpv"
    "\<not> tpv > 64" using assms by simp_all
  show ?thesis
  proof (cases "buffer_pos s1 > 0")
    case True
    obtain s2 where s2: "pad_buffer s1 = Some s2" "length (trit_buffer s2) = 5"
      "packed s2 = packed s1" "packed_index s2 = packed_index s1"
      using pad_buffer_defined [of s1] s1(2) by (auto simp: enc_inv_def)
    obtain b where b: "pack_buffer (trit_buffer s2) = Some b"
      using pack_buffer_defined [OF s2(2)] by blast
    have "(?n * ?T) mod 5 > 0" using True s1(2) by (simp add: enc_inv_def)
    then have "(?n * ?T + 4) div 5 = Suc ((?n * ?T) div 5)" by presburger
    then have "packed_index s2 < length (packed s2)"
      using need s1(2) s2(3,4) by (simp add: enc_inv_def)
    then have w: "wr (packed s2) (packed_index s2) b = Some ((packed s2)[packed_index s2 := b])"
      by (simp add: wr_def)
    have "length ((packed s2)[packed_index s2 := b]) = ?L" using s1(2) s2(3) by (simp add: enc_inv_def)
    then show ?thesis using guards ms cnt s1(1) True s2(1) b w
      by (simp add: float_matrix_to_ternary_def Let_def)
  next
    case False
    have "length (packed s1) = ?L" using s1(2) by (simp add: enc_inv_def)
    then show ?thesis using guards ms cnt s1(1) False
      by (simp add: float_matrix_to_ternary_def Let_def)
  qed
qed

section \<open>The decoder fails exactly when bytes are missing\<close>

lemma unpack_trits_length:
  "length u = 5 \<Longrightarrow> \<exists>u'. unpack_trits b (Some u) = Some (Some u') \<and> length u' = 5"
  by (simp add: unpack_trits_Some5)

lemma btf_defined:
  assumes "1 \<le> n" "nat n \<le> length ts"
  shows "\<exists>v. balanced_ternary_to_float (Some ts) n = Some v"
proof -
  obtain val where "value_loop (nat n) 0 ts 0 1 = Some (val, mul3_loop (nat n) 1)"
    using value_loop_power [of 0 "nat n" ts 0 1] assms(2) by auto
  then show ?thesis using assms(1) by (simp add: balanced_ternary_to_float_def)
qed

lemma need_aligned:
  fixes t d u :: nat
  assumes "d = (t + 4) div 5" "u + 5 * d = t + 5" "t mod 5 = 0"
  shows "u = 5" "d = t div 5"
  using assms by presburger+

lemma need_unaligned:
  fixes t d u :: nat
  assumes "d = (t + 4) div 5" "u + 5 * d = t + 5" "t mod 5 \<noteq> 0"
  shows "u < 5" "d = (Suc t + 4) div 5"
  using assms by presburger+

lemma need_starved:
  fixes t n psz :: nat
  assumes "t mod 5 = 0" "psz \<le> t div 5"
  shows "\<not> (t + Suc n + 4) div 5 \<le> psz"
proof -
  have "(t + 5) div 5 \<le> (t + Suc n + 4) div 5" by (intro div_le_mono) simp
  moreover have "(t + 5) div 5 = Suc (t div 5)" by simp
  ultimately show ?thesis using assms by linarith
qed

lemma need_next:
  fixes t d :: nat
  assumes "t mod 5 = 0" "d = t div 5"
  shows "d + 1 = (Suc t + 4) div 5" "1 + 5 * (d + 1) = Suc t + 5"
  using assms by presburger+

lemma dec_inner_inv:
  assumes "psz \<le> length pk"
  shows "dec_inv psz t s \<Longrightarrow> j + n \<le> 64 \<Longrightarrow>
    ((t + n + 4) div 5 \<le> psz \<longrightarrow>
       (\<exists>s'. dec_inner n j pk psz s = Some (Continue s') \<and> dec_inv psz (t + n) s'
             \<and> dec_matrix s' = dec_matrix s))
    \<and> (\<not> (t + n + 4) div 5 \<le> psz \<longrightarrow>
       (\<exists>s'. dec_inner n j pk psz s = Some (Return_error s') \<and> dec_matrix s' = dec_matrix s))"
proof (induction n arbitrary: t j s)
  case 0
  then show ?case by (simp add: dec_inv_def)
next
  case (Suc n)
  have inv: "dec_index s = (t + 4) div 5" "unpack_pos s + 5 * dec_index s = t + 5"
    "length (unpacked s) = 5" "length (dec_trits s) = 64" "dec_index s \<le> psz"
    using Suc.prems(1) by (simp_all add: dec_inv_def)
  have jl: "j < length (dec_trits s)" "Suc j + n \<le> 64" using Suc.prems(2) inv by simp_all
  show ?case
  proof (cases "t mod 5 = 0")
    case True
    note up = need_aligned(1) [OF inv(1,2) True] and ix = need_aligned(2) [OF inv(1,2) True]
    show ?thesis
    proof (cases "dec_index s \<ge> psz")
      case True
      then have "\<not> (t + Suc n + 4) div 5 \<le> psz"
        using need_starved [OF \<open>t mod 5 = 0\<close>, of psz n] ix by simp
      moreover have "refill pk psz s = Some (Return_error s)" using up True by (simp add: refill_def)
      ultimately show ?thesis by simp
    next
      case False
      then have lt: "dec_index s < length pk" using assms by simp
      obtain u where u: "unpack_trits (pk ! dec_index s) (Some (unpacked s)) = Some (Some u)"
        "length u = 5" using unpack_trits_length [OF inv(3)] by blast
      let ?s1 = "s\<lparr>dec_index := dec_index s + 1, unpacked := u, unpack_pos := 0\<rparr>"
      let ?s2 = "?s1\<lparr>dec_trits := (dec_trits s)[j := u ! 0], unpack_pos := 1\<rparr>"
      have rf: "refill pk psz s = Some (Continue ?s1)"
        using up False lt u by (simp add: refill_def rd_def)
      have inv2: "dec_inv psz (Suc t) ?s2"
        using inv(4) u(2) False need_next [OF \<open>t mod 5 = 0\<close> ix] unfolding dec_inv_def by simp
      have e: "dec_inner (Suc n) j pk psz s = dec_inner n (Suc j) pk psz ?s2"
        using rf u(2) jl by (simp add: rd_def wr_def)
      have "Suc t + n = t + Suc n" by simp
      then show ?thesis using Suc.IH [OF inv2 jl(2)] unfolding e by simp
    qed
  next
    case False
    note up = need_unaligned(1) [OF inv(1,2) False] and ix = need_unaligned(2) [OF inv(1,2) False]
    let ?s2 = "s\<lparr>dec_trits := (dec_trits s)[j := unpacked s ! unpack_pos s],
                  unpack_pos := unpack_pos s + 1\<rparr>"
    have rf: "refill pk psz s = Some (Continue s)" using up by (simp add: refill_def)
    have inv2: "dec_inv psz (Suc t) ?s2"
      using inv(2-5) ix unfolding dec_inv_def by simp
    have e: "dec_inner (Suc n) j pk psz s = dec_inner n (Suc j) pk psz ?s2"
      using rf up inv(3) jl by (simp add: rd_def wr_def)
    have "Suc t + n = t + Suc n" by simp
    then show ?thesis using Suc.IH [OF inv2 jl(2)] unfolding e by simp
  qed
qed

lemma dec_outer_inv:
  assumes "psz \<le> length pk" "1 \<le> tpv" "tpv \<le> 64"
  shows "dec_inv psz t s \<Longrightarrow> i + n \<le> length (dec_matrix s) \<Longrightarrow>
    ((t + n * nat tpv + 4) div 5 \<le> psz \<longrightarrow>
       (\<exists>s'. dec_outer n i pk psz tpv s = Some (Continue s')
             \<and> length (dec_matrix s') = length (dec_matrix s)))
    \<and> (\<not> (t + n * nat tpv + 4) div 5 \<le> psz \<longrightarrow>
       (\<exists>s'. dec_outer n i pk psz tpv s = Some (Return_error s')
             \<and> length (dec_matrix s') = length (dec_matrix s)))"
proof (induction n arbitrary: t i s)
  case 0
  then show ?case by (simp add: dec_inv_def)
next
  case (Suc n)
  have T: "0 + nat tpv \<le> 64" using assms(3) by simp
  note inner = dec_inner_inv [OF assms(1) Suc.prems(1) T]
  show ?case
  proof (cases "(t + nat tpv + 4) div 5 \<le> psz")
    case True
    then obtain s1 where s1: "dec_inner (nat tpv) 0 pk psz s = Some (Continue s1)"
      "dec_inv psz (t + nat tpv) s1" "dec_matrix s1 = dec_matrix s" using inner by auto
    have "nat tpv \<le> length (dec_trits s1)" using s1(2) assms(3) by (simp add: dec_inv_def)
    then obtain v where v: "balanced_ternary_to_float (Some (dec_trits s1)) tpv = Some v"
      using btf_defined [OF assms(2)] by blast
    let ?s2 = "s1\<lparr>dec_matrix := (dec_matrix s1)[i := v]\<rparr>"
    have il: "i < length (dec_matrix s1)" using Suc.prems(2) s1(3) by simp
    have inv2: "dec_inv psz (t + nat tpv) ?s2" using s1(2) by (simp add: dec_inv_def)
    have len: "Suc i + n \<le> length (dec_matrix ?s2)" using Suc.prems(2) s1(3) by simp
    have e: "dec_outer (Suc n) i pk psz tpv s = dec_outer n (Suc i) pk psz tpv ?s2"
      using s1(1) v il by (simp add: wr_def)
    have "t + nat tpv + n * nat tpv = t + Suc n * nat tpv" by simp
    moreover have "length (dec_matrix ?s2) = length (dec_matrix s)" using s1(3) by simp
    ultimately show ?thesis using Suc.IH [OF inv2 len] unfolding e by simp
  next
    case False
    then obtain s1 where s1: "dec_inner (nat tpv) 0 pk psz s = Some (Return_error s1)"
      "dec_matrix s1 = dec_matrix s" using inner by auto
    have "(t + nat tpv + 4) div 5 \<le> (t + Suc n * nat tpv + 4) div 5" by (intro div_le_mono) simp
    then have "\<not> (t + Suc n * nat tpv + 4) div 5 \<le> psz" using False by linarith
    then show ?thesis using s1 by simp
  qed
qed

lemma decode_result:
  assumes "packed_size \<le> length pk" "nat (rows * cols) \<le> length m"
    and "0 < rows" "0 < cols" "1 \<le> tpv" "tpv \<le> 64" "rows * cols < 2 ^ 31"
  shows "\<exists>m'. length m' = length m
           \<and> ternary_to_float_matrix (Some pk) packed_size tpv (Some m) rows cols
               = Some (if calculate_packed_size rows cols tpv \<le> packed_size then 0 else - 1, Some m')"
proof -
  let ?n = "nat (rows * cols)" and ?T = "nat tpv"
  let ?s0 = "\<lparr>dec_trits = replicate 64 0, unpacked = replicate 5 0, unpack_pos = 5,
             dec_index = 0, dec_matrix = m\<rparr>"
  have cps: "calculate_packed_size rows cols tpv = (?n * ?T + 4) div 5"
    using assms by (intro packed_size_of_count)
  have cnt: "int_mul rows cols = Some (rows * cols)" using assms by (intro element_count)
  have inv0: "dec_inv packed_size 0 ?s0" by (simp add: dec_inv_def)
  have len: "0 + ?n \<le> length (dec_matrix ?s0)" using assms(2) by simp
  note outer = dec_outer_inv [OF assms(1,5,6) inv0 len]
  have guards: "\<not> (rows \<le> 0 \<or> cols \<le> 0 \<or> tpv \<le> 0)" "\<not> tpv > 64" using assms by simp_all
  show ?thesis
  proof (cases "calculate_packed_size rows cols tpv \<le> packed_size")
    case True
    then obtain s' where "dec_outer ?n 0 pk packed_size tpv ?s0 = Some (Continue s')"
      "length (dec_matrix s') = length m" using outer cps by auto
    then show ?thesis using True guards cnt by (simp add: ternary_to_float_matrix_def)
  next
    case False
    then obtain s' where "dec_outer ?n 0 pk packed_size tpv ?s0 = Some (Return_error s')"
      "length (dec_matrix s') = length m" using outer cps by auto
    then show ?thesis using False guards cnt by (simp add: ternary_to_float_matrix_def)
  qed
qed












section \<open>Argument validation of the encoder\<close>

lemma encode_not_rejected:
  assumes "\<not> (rows \<le> 0 \<or> cols \<le> 0 \<or> tpv \<le> 0)" "\<not> tpv > 64"
    and "\<not> packed_size < calculate_packed_size rows cols tpv"
  shows "float_matrix_to_ternary (Some m) rows cols tpv (Some pk) packed_size \<noteq> Some (- 1, b)"
proof
  let ?s0 = "\<lambda>pk0. \<lparr>trits = replicate 64 0, trit_buffer = [0, 0, 0, 0, 0],
             buffer_pos = 0, packed_index = 0, packed = pk0\<rparr>"
  let ?fin = "\<lambda>s. if buffer_pos s > 0 then
                      do {
                        s \<leftarrow> pad_buffer s;
                        b \<leftarrow> pack_buffer (trit_buffer s);
                        pk \<leftarrow> wr (packed s) (packed_index s) b;
                        Some (s\<lparr>packed := pk\<rparr>)
                      }
                    else Some s"
  assume r: "float_matrix_to_ternary (Some m) rows cols tpv (Some pk) packed_size = Some (- 1, b)"
  have e: "float_matrix_to_ternary (Some m) rows cols tpv (Some pk) packed_size =
    do {
      pk0 \<leftarrow> memset_zero pk packed_size;
      n \<leftarrow> int_mul rows cols;
      s \<leftarrow> enc_outer (nat n) 0 m tpv (?s0 pk0);
      s \<leftarrow> ?fin s;
      Some (0, Some (packed s))
    }"
    using assms by (simp add: float_matrix_to_ternary_def Let_def cong: Option.bind_cong)
  from r [unfolded e bind_eq_Some_conv] show False by auto
qed

text \<open>
  \<^bold>\<open>C6\<close> (encode argument validation). Where the output buffer, if there is one, holds at
  least \<^verbatim>\<open>packed_size\<close> bytes, \<^verbatim>\<open>float_matrix_to_ternary\<close> returns \<open>-1\<close> if and only if the
  matrix is null, or the output buffer is null, or \<^verbatim>\<open>rows \<le> 0\<close>, or \<^verbatim>\<open>cols \<le> 0\<close>, or
  \<^verbatim>\<open>trits_per_val \<le> 0\<close>, or \<^verbatim>\<open>trits_per_val > 64\<close>, or \<^verbatim>\<open>packed_size\<close> is below
  \<^verbatim>\<open>calculate_packed_size(rows, cols, trits_per_val)\<close>. When none of these holds, the
  matrix has its \<open>rows * cols < 2 ^ 31\<close> elements and none of them is a NaN, it returns 0.
  With \<^verbatim>\<open>trits_per_val = 65\<close> both matrix functions return \<open>-1\<close>.
\<close>

theorem encode_argument_validation:
  assumes "\<forall>pk. packed_buf = Some pk \<longrightarrow> packed_size \<le> length pk"
  shows "((\<exists>b. float_matrix_to_ternary matrix rows cols tpv packed_buf packed_size = Some (- 1, b))
           \<longleftrightarrow> (matrix = None \<or> packed_buf = None \<or> rows \<le> 0 \<or> cols \<le> 0 \<or> tpv \<le> 0
                \<or> tpv > 64 \<or> packed_size < calculate_packed_size rows cols tpv))
       \<and> (\<forall>m pk. matrix = Some m \<and> packed_buf = Some pk \<and> nat (rows * cols) \<le> length m
              \<and> NaN \<notin> set m \<and> rows * cols < 2 ^ 31
              \<and> 0 < rows \<and> 0 < cols \<and> 0 < tpv \<and> tpv \<le> 64
              \<and> calculate_packed_size rows cols tpv \<le> packed_size \<longrightarrow>
            (\<exists>pk'. float_matrix_to_ternary matrix rows cols tpv packed_buf packed_size
                      = Some (0, Some pk') \<and> length pk' = length pk))
       \<and> (tpv = 65 \<longrightarrow>
            (\<exists>b. float_matrix_to_ternary matrix rows cols tpv packed_buf packed_size = Some (- 1, b))
            \<and> ternary_to_float_matrix dec_buf dec_size tpv dec_matrix_buf dec_rows dec_cols
                = Some (- 1, dec_matrix_buf))"
proof -
  let ?conds = "matrix = None \<or> packed_buf = None \<or> rows \<le> 0 \<or> cols \<le> 0 \<or> tpv \<le> 0
                \<or> tpv > 64 \<or> packed_size < calculate_packed_size rows cols tpv"
  have fwd: "\<exists>b. float_matrix_to_ternary matrix rows cols tpv packed_buf packed_size = Some (- 1, b)"
    if c: ?conds
  proof (cases "matrix = None \<or> packed_buf = None \<or> rows \<le> 0 \<or> cols \<le> 0 \<or> tpv \<le> 0
                \<or> packed_size < calculate_packed_size rows cols tpv")
    case True
    then show ?thesis
      by (auto simp: float_matrix_to_ternary_def Let_def split: option.splits)
  next
    case False
    then obtain m pk where mp: "matrix = Some m" "packed_buf = Some pk" by auto
    have "tpv > 64" using c False by blast
    moreover have "packed_size \<le> length pk" using assms mp by simp
    ultimately show ?thesis using False mp
      by (simp add: float_matrix_to_ternary_def Let_def memset_zero_def)
  qed
  have bwd: ?conds
    if r: "\<exists>b. float_matrix_to_ternary matrix rows cols tpv packed_buf packed_size = Some (- 1, b)"
  proof (rule ccontr)
    assume n: "\<not> ?conds"
    then obtain m pk where mp: "matrix = Some m" "packed_buf = Some pk" by auto
    from n have "\<not> (rows \<le> 0 \<or> cols \<le> 0 \<or> tpv \<le> 0)" "\<not> tpv > 64"
      "\<not> packed_size < calculate_packed_size rows cols tpv" by simp_all
    from encode_not_rejected [OF this] r mp show False by blast
  qed
  have a: "(\<exists>b. float_matrix_to_ternary matrix rows cols tpv packed_buf packed_size = Some (- 1, b))
           \<longleftrightarrow> ?conds"
    using fwd bwd by blast
  have s: "\<exists>pk'. float_matrix_to_ternary matrix rows cols tpv packed_buf packed_size
                      = Some (0, Some pk') \<and> length pk' = length pk"
    if h: "matrix = Some m \<and> packed_buf = Some pk \<and> nat (rows * cols) \<le> length m
              \<and> NaN \<notin> set m \<and> rows * cols < 2 ^ 31
              \<and> 0 < rows \<and> 0 < cols \<and> 0 < tpv \<and> tpv \<le> 64
              \<and> calculate_packed_size rows cols tpv \<le> packed_size" for m pk
  proof -
    have "packed_size \<le> length pk" using assms h by simp
    moreover have "1 \<le> tpv" using h by simp
    ultimately show ?thesis using encode_succeeds [of rows cols m packed_size pk tpv] h by simp
  qed
  have d: "ternary_to_float_matrix dec_buf dec_size 65 dec_matrix_buf dec_rows dec_cols
                = Some (- 1, dec_matrix_buf)"
    by (simp add: ternary_to_float_matrix_def split: option.splits)
  have t: "(\<exists>b. float_matrix_to_ternary matrix rows cols tpv packed_buf packed_size = Some (- 1, b))
            \<and> ternary_to_float_matrix dec_buf dec_size tpv dec_matrix_buf dec_rows dec_cols
                = Some (- 1, dec_matrix_buf)" if "tpv = 65"
    using that fwd d by simp
  show ?thesis
  proof (intro conjI)
    show "(\<exists>b. float_matrix_to_ternary matrix rows cols tpv packed_buf packed_size = Some (- 1, b))
           \<longleftrightarrow> ?conds" by (rule a)
    show "\<forall>m pk. matrix = Some m \<and> packed_buf = Some pk \<and> nat (rows * cols) \<le> length m
              \<and> NaN \<notin> set m \<and> rows * cols < 2 ^ 31
              \<and> 0 < rows \<and> 0 < cols \<and> 0 < tpv \<and> tpv \<le> 64
              \<and> calculate_packed_size rows cols tpv \<le> packed_size \<longrightarrow>
            (\<exists>pk'. float_matrix_to_ternary matrix rows cols tpv packed_buf packed_size
                      = Some (0, Some pk') \<and> length pk' = length pk)"
      using s by blast
    show "tpv = 65 \<longrightarrow>
            (\<exists>b. float_matrix_to_ternary matrix rows cols tpv packed_buf packed_size = Some (- 1, b))
            \<and> ternary_to_float_matrix dec_buf dec_size tpv dec_matrix_buf dec_rows dec_cols
                = Some (- 1, dec_matrix_buf)"
      using t by blast
  qed
qed

text \<open>
  The theorem at a \<open>1 \<times> 1\<close> matrix with 65 trits per value and 13 bytes (the encoder has
  already zeroed the buffer when it rejects the precision), and with 3 trits per value
  and one byte, which is accepted.
\<close>

theorem encode_argument_validation_witness:
  "13 \<le> length (replicate 13 (7 :: u8))
   \<and> (65 :: int) > 64
   \<and> float_matrix_to_ternary (Some [Fin (1 / 2)]) 1 1 65 (Some (replicate 13 7)) 13
       = Some (- 1, Some (replicate 13 0))
   \<and> ternary_to_float_matrix (Some (replicate 13 7)) 13 65 (Some [Fin 0]) 1 1
       = Some (- 1, Some [Fin 0])
   \<and> 1 \<le> length [7 :: u8] \<and> nat (1 * 1) \<le> length [Fin (1 / 2)] \<and> NaN \<notin> set [Fin (1 / 2)]
   \<and> (1 * 1 :: int) < 2 ^ 31 \<and> (0 :: int) < 3 \<and> (3 :: int) \<le> 64
   \<and> calculate_packed_size 1 1 3 \<le> 1
   \<and> (\<exists>pk'. float_matrix_to_ternary (Some [Fin (1 / 2)]) 1 1 3 (Some [7]) 1 = Some (0, Some pk')
            \<and> length pk' = 1)"
  using encode_argument_validation [of "Some (replicate 13 7)" 13 "Some [Fin (1 / 2)]" 1 1 65
      "Some (replicate 13 7)" 13 "Some [Fin 0]" 1 1]
    encode_argument_validation [of "Some [7]" 1 "Some [Fin (1 / 2)]" 1 1 3]
  by (simp add: float_matrix_to_ternary_def calculate_packed_size_def size_t_def memset_zero_def)

text \<open>
  \<^bold>\<open>C7\<close> (undersized buffer). With \<^verbatim>\<open>packed_size\<close> one byte below
  \<^verbatim>\<open>calculate_packed_size(rows, cols, trits_per_val)\<close>, and with any smaller
  \<^verbatim>\<open>packed_size\<close>, \<^verbatim>\<open>float_matrix_to_ternary\<close> returns \<open>-1\<close> and the output buffer is what it
  was: nothing is written, for every matrix and all dimensions.
\<close>

theorem undersized_buffer_untouched:
  "(packed_size + 1 = calculate_packed_size rows cols tpv \<longrightarrow>
      float_matrix_to_ternary matrix rows cols tpv packed_buf packed_size = Some (- 1, packed_buf))
   \<and> (packed_size < calculate_packed_size rows cols tpv \<longrightarrow>
      float_matrix_to_ternary matrix rows cols tpv packed_buf packed_size = Some (- 1, packed_buf))"
  by (auto simp: float_matrix_to_ternary_def Let_def split: option.splits)

text \<open>The theorem at the \<open>3 \<times> 3\<close> matrix with 8 trits per value and 14 of the 15 bytes.\<close>

theorem undersized_buffer_untouched_witness:
  "14 + 1 = calculate_packed_size 3 3 8
   \<and> float_matrix_to_ternary
        (Some [Fin (- 1), Fin (- 1 / 2), Fin 0, f32_round (33 / 100), Fin (1 / 2), Fin (3 / 4),
               Fin 1, Fin (- 3 / 4), f32_round (1 / 10)])
        3 3 8 (Some [7, 7, 7, 7, 7, 7, 7, 7, 7, 7, 7, 7, 7, 7]) 14
       = Some (- 1, Some [7, 7, 7, 7, 7, 7, 7, 7, 7, 7, 7, 7, 7, 7])"
  using undersized_buffer_untouched [of 14 3 3 8
      "Some [Fin (- 1), Fin (- 1 / 2), Fin 0, f32_round (33 / 100), Fin (1 / 2), Fin (3 / 4),
               Fin 1, Fin (- 3 / 4), f32_round (1 / 10)]"
      "Some [7, 7, 7, 7, 7, 7, 7, 7, 7, 7, 7, 7, 7, 7]"]
  by (simp add: calculate_packed_size_def size_t_def)

section \<open>The range in which \<^verbatim>\<open>max_val\<close> is exact\<close>

text \<open>
  \<^bold>\<open>C10\<close> (precision overflow). Both scalar functions work with the \<^verbatim>\<open>max_val\<close> obtained
  by multiplying a 32-bit \<^verbatim>\<open>int\<close> by 3 \<^verbatim>\<open>num_trits\<close> times: for \<open>n \<ge> 1\<close> trits
  \<^verbatim>\<open>float_to_balanced_ternary\<close> converts the rounded product of the clamped value and
  \<^verbatim>\<open>(float)max_val\<close>, and \<^verbatim>\<open>balanced_ternary_to_float\<close> returns \<^verbatim>\<open>(float)value / (float)max_val\<close>,
  where its \<^verbatim>\<open>max_val\<close>, computed from \<^verbatim>\<open>power\<close>, is the same number. With 32-bit
  wrap-around this \<^verbatim>\<open>max_val\<close> equals \<open>(3 ^ n - 1) / 2\<close> exactly for \<open>n \<le> 19\<close> and differs
  from it for every \<open>n \<ge> 20\<close>; and both matrix functions accept every \<^verbatim>\<open>trits_per_val\<close>
  from 20 to 64 (they return 0 on a \<open>1 \<times> 1\<close> matrix with 13 bytes).
\<close>

theorem max_val_exact_iff:
  "(max_val (int n) = (3 ^ n - 1) div 2 \<longleftrightarrow> n \<le> 19)
   \<and> (1 \<le> n \<longrightarrow>
        float_to_balanced_ternary v (Some ts) (int n)
          = do {
              k \<leftarrow> f32_to_int (roundf (f32_mul (clamp v) (f32_of_int (max_val (int n)))));
              ts' \<leftarrow> trits_loop n 0 k ts;
              Some (0, Some ts')
            })
   \<and> (1 \<le> n \<and> n \<le> length ds \<longrightarrow>
        (\<exists>val pwr. value_loop n 0 ds 0 1 = Some (val, pwr)
                   \<and> cdiv (int32 (pwr - 1)) 2 = max_val (int n)
                   \<and> balanced_ternary_to_float (Some ds) (int n)
                       = Some (f32_div (f32_of_int val) (f32_of_int (max_val (int n))))))
   \<and> (20 \<le> n \<and> n \<le> 64 \<longrightarrow>
        (\<exists>b. float_matrix_to_ternary (Some [Fin 1]) 1 1 (int n) (Some (replicate 13 0)) 13
                = Some (0, Some b))
        \<and> (\<exists>m. ternary_to_float_matrix (Some (replicate 13 0)) 13 (int n) (Some [Fin 0]) 1 1
                = Some (0, Some m)))"
proof -
  have enc: "float_to_balanced_ternary v (Some ts) (int n)
          = do {
              k \<leftarrow> f32_to_int (roundf (f32_mul (clamp v) (f32_of_int (max_val (int n)))));
              ts' \<leftarrow> trits_loop n 0 k ts;
              Some (0, Some ts')
            }" if "1 \<le> n"
    using that by (simp add: float_to_balanced_ternary_def)
  have dec: "\<exists>val pwr. value_loop n 0 ds 0 1 = Some (val, pwr)
                   \<and> cdiv (int32 (pwr - 1)) 2 = max_val (int n)
                   \<and> balanced_ternary_to_float (Some ds) (int n)
                       = Some (f32_div (f32_of_int val) (f32_of_int (max_val (int n))))"
    if h: "1 \<le> n \<and> n \<le> length ds"
  proof -
    from scalar_max_val [of n ds] h obtain val pwr
      where l: "value_loop n 0 ds 0 1 = Some (val, pwr)"
        and m: "cdiv (int32 (pwr - 1)) 2 = max_val (int n)" by blast
    have "balanced_ternary_to_float (Some ds) (int n)
            = Some (f32_div (f32_of_int val) (f32_of_int (max_val (int n))))"
      using h l m by (simp add: balanced_ternary_to_float_def)
    then show ?thesis using l m by blast
  qed
  have acc: "(\<exists>b. float_matrix_to_ternary (Some [Fin 1]) 1 1 (int n) (Some (replicate 13 0)) 13
                = Some (0, Some b))
        \<and> (\<exists>m. ternary_to_float_matrix (Some (replicate 13 0)) 13 (int n) (Some [Fin 0]) 1 1
                = Some (0, Some m))" if h: "20 \<le> n \<and> n \<le> 64"
  proof -
    have t: "1 \<le> int n" "int n \<le> 64" using h by simp_all
    have "calculate_packed_size 1 1 (int n) = (nat (1 * 1) * nat (int n) + 4) div 5"
      using t by (intro packed_size_of_count) simp_all
    moreover have "(n + 4) div 5 \<le> 13" using h by presburger
    ultimately have c: "calculate_packed_size 1 1 (int n) \<le> 13" by simp
    have "\<exists>pk'. float_matrix_to_ternary (Some [Fin 1]) 1 1 (int n) (Some (replicate 13 0)) 13
                 = Some (0, Some pk') \<and> length pk' = length (replicate 13 (0 :: u8))"
      using t c by (intro encode_succeeds) simp_all
    moreover have "\<exists>m'. length m' = length [Fin 0]
           \<and> ternary_to_float_matrix (Some (replicate 13 0)) 13 (int n) (Some [Fin 0]) 1 1
               = Some (if calculate_packed_size 1 1 (int n) \<le> 13 then 0 else - 1, Some m')"
      using t by (intro decode_result) simp_all
    ultimately show ?thesis using c by auto
  qed
  show ?thesis using scalar_max_val [of n ts] enc dec acc by blast
qed

text \<open>
  The theorem at 20 trits, where \<^verbatim>\<open>max_val\<close> is \<open>-404091448\<close>: the trits written for
  \<open>value = 1.0\<close>, and the value returned for twenty trits \<open>+1\<close>, whose \<^verbatim>\<open>power\<close> has
  wrapped to \<open>-808182895\<close>.
\<close>

theorem max_val_exact_iff_witness:
  "(1 :: nat) \<le> 20 \<and> (20 :: nat) \<le> length (replicate 20 (1 :: int)) \<and> (20 :: nat) \<le> 64
   \<and> max_val 20 = - 404091448
   \<and> max_val 20 \<noteq> (3 ^ 20 - 1) div 2
   \<and> float_to_balanced_ternary (Fin 1) (Some (replicate 20 0)) 20
       = Some (0, Some [0, 1, 0, - 1, 1, 0, 1, 1, 1, 0, 0, - 1, - 1, - 1, 0, - 1, 0, 0, - 1, 0])
   \<and> value_loop 20 0 (replicate 20 1) 0 1 = Some (1743392200, - 808182895)
   \<and> balanced_ternary_to_float (Some (replicate 20 1)) 20
       = Some (Fin (- (9047849 / 2097152)))
   \<and> (\<exists>b. float_matrix_to_ternary (Some [Fin 1]) 1 1 20 (Some (replicate 13 0)) 13
                = Some (0, Some b))
   \<and> (\<exists>m. ternary_to_float_matrix (Some (replicate 13 0)) 13 20 (Some [Fin 0]) 1 1
                = Some (0, Some m))"
  using max_val_exact_iff [of 20 "Fin 1" "replicate 20 0" "replicate 20 1"]
  by (simp add: f32_eval int_eval loop_eval replicate_numeral_eval)

section \<open>The matrix round trip of the specification\<close>

lemma enc_inner_numeral:
  "enc_inner (numeral n) j s =
     do {
       t \<leftarrow> rd (trits s) j;
       tb \<leftarrow> wr (trit_buffer s) (buffer_pos s) t;
       let s = s\<lparr>trit_buffer := tb, buffer_pos := buffer_pos s + 1\<rparr>;
       s \<leftarrow> (if buffer_pos s = 5 then
              do {
                b \<leftarrow> pack_buffer (trit_buffer s);
                pk \<leftarrow> wr (packed s) (packed_index s) b;
                Some (s\<lparr>packed := pk, packed_index := packed_index s + 1, buffer_pos := 0\<rparr>)
              }
            else Some s);
       enc_inner (pred_numeral n) (Suc j) s
     }"
  by (simp add: numeral_eq_Suc)

lemma enc_outer_numeral:
  "enc_outer (numeral n) i m trits_per_val s =
     do {
       v \<leftarrow> rd m i;
       (rc, tso) \<leftarrow> float_to_balanced_ternary v (Some (trits s)) trits_per_val;
       ts \<leftarrow> tso;
       s \<leftarrow> enc_inner (nat trits_per_val) 0 (s\<lparr>trits := ts\<rparr>);
       enc_outer (pred_numeral n) (Suc i) m trits_per_val s
     }"
  by (simp add: numeral_eq_Suc)

lemma dec_inner_numeral:
  "dec_inner (numeral n) j pk packed_size s =
     do {
       f \<leftarrow> refill pk packed_size s;
       case f of
         Return_error s \<Rightarrow> Some (Return_error s)
       | Continue s \<Rightarrow>
           do {
             t \<leftarrow> rd (unpacked s) (unpack_pos s);
             ts \<leftarrow> wr (dec_trits s) j t;
             dec_inner (pred_numeral n) (Suc j) pk packed_size
               (s\<lparr>dec_trits := ts, unpack_pos := unpack_pos s + 1\<rparr>)
           }
     }"
  unfolding numeral_eq_Suc by (rule dec_inner.simps)

lemma dec_outer_numeral:
  "dec_outer (numeral n) i pk packed_size trits_per_val s =
     do {
       f \<leftarrow> dec_inner (nat trits_per_val) 0 pk packed_size s;
       case f of
         Return_error s \<Rightarrow> Some (Return_error s)
       | Continue s \<Rightarrow>
           do {
             v \<leftarrow> balanced_ternary_to_float (Some (dec_trits s)) trits_per_val;
             mx \<leftarrow> wr (dec_matrix s) i v;
             dec_outer (pred_numeral n) (Suc i) pk packed_size trits_per_val (s\<lparr>dec_matrix := mx\<rparr>)
           }
     }"
  unfolding numeral_eq_Suc by (rule dec_outer.simps)

lemmas matrix_eval = replicate_numeral_eval float_matrix_to_ternary_def ternary_to_float_matrix_def
  int_mul_def
  calculate_packed_size_def size_t_def memset_zero_def
  enc_outer_numeral enc_inner_numeral dec_outer_numeral dec_inner_numeral refill_def
  float_to_balanced_ternary_def balanced_ternary_to_float_def unpack_trits_def
  pack_buffer_def pack_trits_def pad_buffer.simps

lemma encode_example:
  "float_matrix_to_ternary
     (Some [Fin (- 1), Fin (- 1 / 2), Fin 0, f32_round (33 / 100), Fin (1 / 2), Fin (3 / 4),
            Fin 1, Fin (- 3 / 4), f32_round (1 / 10)])
     3 3 8 (Some (replicate 15 0)) 15
   = Some (0, Some [0, 135, 212, 121, 40, 239, 59, 182, 151, 239, 242, 32, 172, 230, 121])"
  by (simp add: matrix_eval f32_eval int_eval loop_eval)

lemma decode_example:
  "ternary_to_float_matrix
     (Some [0, 135, 212, 121, 40, 239, 59, 182, 151, 239, 242, 32, 172, 230, 121])
     15 8 (Some (replicate 9 (Fin 0))) 3 3
   = Some (0, Some [Fin (- 1), Fin (1 / 4), Fin 0, Fin (11068871 / 33554432), Fin (1 / 2),
                   Fin (3 / 4), Fin 1, Fin (- 3 / 4), Fin (13421773 / 134217728)])"
  by (simp add: matrix_eval f32_eval int_eval loop_eval)

text \<open>
  \<^bold>\<open>C4\<close> (matrix round trip) does not hold of the code. Encoding the \<open>3 \<times> 3\<close> matrix
  \<open>{-1, -0.5, 0, 0.33, 0.5, 0.75, 1, -0.75, 0.1}\<close> with 8 trits per value into 15 bytes
  returns 0, and decoding these bytes returns 0; but the element \<open>-0.5\<close> comes back as
  \<open>0.25\<close>, an error of \<open>0.75\<close>, far above \<open>1 / 3280\<close>. It is the slip of the scalar
  encoder on negative values (see \<open>C1\<close>): \<open>k = -1640\<close> gives the trits
  \<open>(1, 0, 1, 0, 1, 0, 1, 0)\<close>, the value 820.
\<close>

theorem matrix_roundtrip_negative_half:
  "calculate_packed_size 3 3 8 = 15
   \<and> float_matrix_to_ternary
       (Some [Fin (- 1), Fin (- 1 / 2), Fin 0, f32_round (33 / 100), Fin (1 / 2), Fin (3 / 4),
              Fin 1, Fin (- 3 / 4), f32_round (1 / 10)])
       3 3 8 (Some (replicate 15 0)) 15
     = Some (0, Some [0, 135, 212, 121, 40, 239, 59, 182, 151, 239, 242, 32, 172, 230, 121])
   \<and> ternary_to_float_matrix
       (Some [0, 135, 212, 121, 40, 239, 59, 182, 151, 239, 242, 32, 172, 230, 121])
       15 8 (Some (replicate 9 (Fin 0))) 3 3
     = Some (0, Some [Fin (- 1), Fin (1 / 4), Fin 0, Fin (11068871 / 33554432), Fin (1 / 2),
                     Fin (3 / 4), Fin 1, Fin (- 3 / 4), Fin (13421773 / 134217728)])
   \<and> \<not> \<bar>(1 / 4 :: rat) - (- 1 / 2)\<bar> \<le> 1 / 3280"
  using encode_example decode_example
  by (simp add: calculate_packed_size_def size_t_def)

end
